theory Spec2Isabelle
  imports Complex_Main "HOL-Library.Multiset"
begin

section \<open>Data model\<close>

text \<open>
  A Python \<open>str\<close> is a sequence of Unicode code points; \<open>len\<close> counts code points and
  the word pattern tests code points. A character is therefore a natural number, its
  Unicode number, and a string a list of them.
\<close>

type_synonym uchar = nat
type_synonym ustring = "uchar list"

definition ustr :: "string \<Rightarrow> ustring" where
  "ustr s = map of_char s"

datatype error = IndexError | ValueError ustring

subsection \<open>The random generator\<close>

text \<open>
  \<open>random.Random\<close> is library code. Its state is modelled by the sequence of raw draws
  it is still going to produce; \<open>randbelow n\<close> consumes one draw and reduces it below
  \<open>n\<close>. Every sequence of in-range results of the real generator is produced by one
  such state, so a statement about every state covers every generator.
\<close>

type_synonym rng = "nat \<Rightarrow> nat"

definition randbelow :: "rng \<Rightarrow> nat \<Rightarrow> nat \<times> rng" where
  "randbelow g n = (g 0 mod n, \<lambda>k. g (Suc k))"

text \<open>
  \<open>Random.shuffle\<close>:
  \<^verbatim>\<open>for i in reversed(range(1, len(x))): j = randbelow(i + 1); x[i], x[j] = x[j], x[i]\<close>
\<close>

fun shuffle_from :: "nat \<Rightarrow> 'a list \<Rightarrow> rng \<Rightarrow> 'a list \<times> rng" where
  "shuffle_from 0 x g = (x, g)"
| "shuffle_from (Suc i) x g =
     (case randbelow g (Suc i + 1) of
        (j, g') \<Rightarrow> shuffle_from i (x[Suc i := x ! j, j := x ! Suc i]) g')"

definition shuffle :: "'a list \<Rightarrow> rng \<Rightarrow> 'a list \<times> rng" where
  "shuffle x g = shuffle_from (length x - 1) x g"

text \<open>
  \<open>random.Random(seed)\<close>: the seeding function \<open>mt\<close> of the library generator is a
  parameter. Without a seed the generator is seeded from the entropy of the operating
  system, which is an input of the model.
\<close>

definition Random :: "(int \<Rightarrow> rng) \<Rightarrow> int \<Rightarrow> int option \<Rightarrow> rng" where
  "Random mt entropy seed = (case seed of None \<Rightarrow> mt entropy | Some a \<Rightarrow> mt a)"

section \<open>Scrambling (core.py; word\_salat.py holds the same four functions)\<close>

definition MAX_SHUFFLE_ATTEMPTS :: int where
  "MAX_SHUFFLE_ATTEMPTS = 8"

definition is_word_char :: "uchar \<Rightarrow> bool" where
  "is_word_char c \<longleftrightarrow>
     (0x41 \<le> c \<and> c \<le> 0x5A) \<or> (0x61 \<le> c \<and> c \<le> 0x7A) \<or>
     (0xC0 \<le> c \<and> c \<le> 0xD6) \<or> (0xD8 \<le> c \<and> c \<le> 0xF6) \<or> (0xF8 \<le> c \<and> c \<le> 0xFF)"

text \<open>
  Python list indexing: a negative index counts from the end, an index out of range
  raises \<open>IndexError\<close>.
\<close>

definition py_index :: "nat \<Rightarrow> int \<Rightarrow> error + nat" where
  "py_index n i =
     (let j = (if i < 0 then int n + i else i)
      in if 0 \<le> j \<and> j < int n then Inr (nat j) else Inl IndexError)"

text \<open>\<^verbatim>\<open>subset = [chars[i] for i in indices]\<close>\<close>

fun subset_at :: "'a list \<Rightarrow> int list \<Rightarrow> error + 'a list" where
  "subset_at chars [] = Inr []"
| "subset_at chars (i # rest) =
     (case py_index (length chars) i of
        Inl e \<Rightarrow> Inl e
      | Inr k \<Rightarrow> (case subset_at chars rest of
                   Inl e \<Rightarrow> Inl e
                 | Inr vs \<Rightarrow> Inr (chars ! k # vs)))"

text \<open>\<^verbatim>\<open>for idx, value in zip(indices, randomized): candidate[idx] = value\<close>\<close>

fun assign_at :: "'a list \<Rightarrow> (int \<times> 'a) list \<Rightarrow> error + 'a list" where
  "assign_at candidate [] = Inr candidate"
| "assign_at candidate ((idx, v) # rest) =
     (case py_index (length candidate) idx of
        Inl e \<Rightarrow> Inl e
      | Inr k \<Rightarrow> assign_at (candidate[k := v]) rest)"

text \<open>
  (\<open>subs\<close> is the source's \<open>subset\<close>.) The loop \<^verbatim>\<open>for _ in range(max_attempts)\<close> and the fall-through after it.\<close>

fun attempt_loop ::
  "nat \<Rightarrow> uchar list \<Rightarrow> int list \<Rightarrow> uchar list \<Rightarrow> rng \<Rightarrow> error + (uchar list \<times> rng)" where
  "attempt_loop 0 original_chars indices subs g = Inr (original_chars, g)"
| "attempt_loop (Suc n) original_chars indices subs g =
     (case shuffle subs g of
        (randomized, g') \<Rightarrow>
          (case assign_at original_chars (zip indices randomized) of
             Inl e \<Rightarrow> Inl e
           | Inr candidate \<Rightarrow>
               if candidate \<noteq> original_chars then Inr (candidate, g')
               else attempt_loop n original_chars indices subs g'))"

definition attempt_shuffle ::
  "uchar list \<Rightarrow> int list \<Rightarrow> rng \<Rightarrow> int \<Rightarrow> error + (uchar list \<times> rng)" where
  "attempt_shuffle chars indices g max_attempts =
     (if length indices \<le> 1 then Inr (chars, g)
      else case subset_at chars indices of
             Inl e \<Rightarrow> Inl e
           | Inr subs \<Rightarrow>
               if card (set subs) \<le> 1 then Inr (chars, g)
               else attempt_loop (nat max_attempts) chars indices subs g)"

text \<open>
  \<open>scramble_word\<close> with the generator given. (With \<open>rng=None\<close> the source makes a fresh
  generator, which is one of the states \<open>g\<close> ranges over.) The generator is mutated in
  place by the source; the model returns its new state beside the word.
\<close>

definition scramble_word :: "ustring \<Rightarrow> rng \<Rightarrow> error + (ustring \<times> rng)" where
  "scramble_word word g =
     (if length word \<le> 3 then Inr (word, g)
      else
        let chars = word;
            indices = [1 ..  int (length word) - 1 - 1];
            indices = (if length word mod 2 = 1
                       then (let middle_index = int (length word div 2)
                             in if middle_index \<in> set indices
                                then remove1 middle_index indices else indices)
                       else indices)
        in attempt_shuffle chars indices g MAX_SHUFFLE_ATTEMPTS)"

text \<open>
  \<open>WORD_PATTERN.finditer(text)\<close>, for the pattern \<^verbatim>\<open>[A-Za-z...]+\<close>: the spans
  \<open>(start, end)\<close> of the maximal runs of word characters, from left to right.
  \<open>finditer pos cs\<close> scans the rest \<open>cs\<close> of the text that starts at position \<open>pos\<close>.
\<close>

function finditer :: "nat \<Rightarrow> ustring \<Rightarrow> (nat \<times> nat) list" where
  "finditer pos [] = []"
| "finditer pos (c # cs) =
     (if is_word_char c
      then (pos, pos + 1 + length (takeWhile is_word_char cs))
           # finditer (pos + 1 + length (takeWhile is_word_char cs)) (dropWhile is_word_char cs)
      else finditer (pos + 1) cs)"
  by pat_completeness auto
termination
  by (relation "measure (\<lambda>(pos, cs). length cs)")
     (auto simp: less_Suc_eq_le length_dropWhile_le)

text \<open>The slice \<open>text[a:b]\<close> for \<open>0 \<le> a\<close> and \<open>0 \<le> b\<close>.\<close>

definition slice :: "'a list \<Rightarrow> nat \<Rightarrow> nat \<Rightarrow> 'a list" where
  "slice xs a b = take (b - a) (drop a xs)"

text \<open>
  \<open>_scramble_segments\<close>: the loop over the matches, with \<open>last_index\<close> carried along, and
  the tail after the loop. The generator of segments is modelled by the list of the
  segments it yields.
\<close>

fun scramble_segments_loop ::
  "ustring \<Rightarrow> (nat \<times> nat) list \<Rightarrow> nat \<Rightarrow> rng \<Rightarrow> error + (ustring list \<times> rng)" where
  "scramble_segments_loop text [] last_index g =
     Inr (if last_index < length text then [drop last_index text] else [], g)"
| "scramble_segments_loop text ((start, stop) # matches) last_index g =
     (case scramble_word (slice text start stop) g of
        Inl e \<Rightarrow> Inl e
      | Inr (w, g') \<Rightarrow>
          (case scramble_segments_loop text matches stop g' of
             Inl e \<Rightarrow> Inl e
           | Inr (segments, g'') \<Rightarrow>
               Inr ((if start > last_index then [slice text last_index start] else [])
                    @ [w] @ segments, g'')))"

definition scramble_segments :: "ustring \<Rightarrow> rng \<Rightarrow> error + (ustring list \<times> rng)" where
  "scramble_segments text g = scramble_segments_loop text (finditer 0 text) 0 g"

text \<open>
  \<open>scramble_text\<close>. Besides the text and the optional seed the model takes what the call
  reads from its surroundings: the seeding function of the library and the entropy of
  the operating system.
\<close>

definition scramble_text ::
  "(int \<Rightarrow> rng) \<Rightarrow> int \<Rightarrow> ustring \<Rightarrow> int option \<Rightarrow> error + ustring" where
  "scramble_text mt entropy text seed =
     (case scramble_segments text (Random mt entropy seed) of
        Inl e \<Rightarrow> Inl e
      | Inr (segments, g') \<Rightarrow> Inr (concat segments))"

subsection \<open>Notions used to state the properties\<close>

text \<open>An index that Python accepts for a list of length \<open>n\<close>, and the position it denotes.\<close>

definition valid_index :: "nat \<Rightarrow> int \<Rightarrow> bool" where
  "valid_index n i \<longleftrightarrow> - int n \<le> i \<and> i < int n"

definition py_pos :: "nat \<Rightarrow> int \<Rightarrow> nat" where
  "py_pos n i = nat (if i < 0 then int n + i else i)"

text \<open>The characters of \<open>chars\<close> at the given indices (the source's \<open>subset\<close>).\<close>

definition chars_at :: "'a list \<Rightarrow> int list \<Rightarrow> 'a list" where
  "chars_at chars indices = map (\<lambda>i. chars ! py_pos (length chars) i) indices"

text \<open>The state of the generator after \<open>k\<close> calls of \<open>shuffle\<close> on copies of \<open>subs\<close>.\<close>

fun rng_after :: "nat \<Rightarrow> 'a list \<Rightarrow> rng \<Rightarrow> rng" where
  "rng_after 0 subs g = g"
| "rng_after (Suc k) subs g = rng_after k subs (snd (shuffle subs g))"

text \<open>The candidate that attempt number \<open>j\<close> (counted from 0) of the loop builds.\<close>

definition candidate_at ::
  "uchar list \<Rightarrow> int list \<Rightarrow> uchar list \<Rightarrow> rng \<Rightarrow> nat \<Rightarrow> error + uchar list" where
  "candidate_at chars indices subs g j =
     assign_at chars (zip indices (fst (shuffle subs (rng_after j subs g))))"

text \<open>
  Two texts have the same shape when they are equally long, agree at every position
  that holds a non-word character, and hold word characters at the same positions.
\<close>

definition same_shape :: "ustring \<Rightarrow> ustring \<Rightarrow> bool" where
  "same_shape t out \<longleftrightarrow>
     list_all2 (\<lambda>a b. if is_word_char a then is_word_char b else b = a) t out"

section \<open>Scoring (scoring.py)\<close>

subsection \<open>The library functions the scorer calls\<close>

text \<open>
  The scorer calls functions of the Python standard library. They are parameters of the
  model, collected in a record: the Unicode case mapping, the whitespace test of
  \<open>str.split()\<close>, \<open>difflib.SequenceMatcher(None, a, b).ratio()\<close>, the float format
  \<open>.4f\<close>, and the file operations of the two loggers on a file system of type \<open>'fs\<close>.
  A Python \<open>float\<close> is modelled by a real number. Failures of the operating system
  during file operations are outside the model.
\<close>

record 'fs pylib =
  unicode_lower :: "ustring \<Rightarrow> ustring"
  isspace :: "uchar \<Rightarrow> bool"
  SequenceMatcher_ratio :: "ustring list \<Rightarrow> ustring list \<Rightarrow> real"
  format_4f :: "real \<Rightarrow> ustring"
  Path_resolve :: "'fs \<Rightarrow> ustring \<Rightarrow> ustring"
  Path_parent :: "ustring \<Rightarrow> ustring"
  Path_mkdir :: "'fs \<Rightarrow> ustring \<Rightarrow> 'fs"
  Path_exists :: "'fs \<Rightarrow> ustring \<Rightarrow> bool"
  Path_read_text :: "'fs \<Rightarrow> ustring \<Rightarrow> ustring"
  Path_write_text :: "'fs \<Rightarrow> ustring \<Rightarrow> ustring \<Rightarrow> 'fs"
  splitlines_keepends :: "ustring \<Rightarrow> ustring list"
  os_path_abspath :: "'fs \<Rightarrow> ustring \<Rightarrow> ustring"
  os_path_dirname :: "ustring \<Rightarrow> ustring"
  os_makedirs :: "'fs \<Rightarrow> ustring \<Rightarrow> 'fs"
  os_path_exists :: "'fs \<Rightarrow> ustring \<Rightarrow> bool"
  open_write :: "'fs \<Rightarrow> ustring \<Rightarrow> ustring list \<Rightarrow> 'fs"
  open_readlines :: "'fs \<Rightarrow> ustring \<Rightarrow> ustring list"

text \<open>
  \<open>str.lower()\<close>: on a string of ASCII characters only it maps \<open>A\<close>..\<open>Z\<close> to
  \<open>a\<close>..\<open>z\<close> (CPython takes this path for ASCII strings); on any other string it is
  the Unicode mapping of the library.
\<close>

definition ascii_lower :: "uchar \<Rightarrow> uchar" where
  "ascii_lower c = (if 0x41 \<le> c \<and> c \<le> 0x5A then c + 0x20 else c)"

definition str_lower :: "'fs pylib \<Rightarrow> ustring \<Rightarrow> ustring" where
  "str_lower L s = (if list_all (\<lambda>c. c < 0x80) s then map ascii_lower s else unicode_lower L s)"

text \<open>\<open>s.split()\<close>: the maximal runs of characters that are not whitespace.\<close>

function str_split :: "(uchar \<Rightarrow> bool) \<Rightarrow> ustring \<Rightarrow> ustring list" where
  "str_split sp [] = []"
| "str_split sp (c # cs) =
     (if sp c then str_split sp cs
      else (c # takeWhile (\<lambda>x. \<not> sp x) cs) # str_split sp (dropWhile (\<lambda>x. \<not> sp x) cs))"
  by pat_completeness auto
termination
  by (relation "measure (\<lambda>(sp, cs). length cs)")
     (auto simp: less_Suc_eq_le length_dropWhile_le)

text \<open>\<open>sep.join(parts)\<close>\<close>

fun str_join :: "ustring \<Rightarrow> ustring list \<Rightarrow> ustring" where
  "str_join sep [] = []"
| "str_join sep [x] = x"
| "str_join sep (x # y # ys) = x @ sep @ str_join sep (y # ys)"

text \<open>A \<open>str\<close> as a sequence: its items are its one-character strings.\<close>

definition elements :: "ustring \<Rightarrow> ustring list" where
  "elements s = map (\<lambda>c. [c]) s"

text \<open>\<open>WORD_PATTERN.findall(text)\<close>: the matched substrings.\<close>

definition findall :: "ustring \<Rightarrow> ustring list" where
  "findall text = map (\<lambda>(start, stop). slice text start stop) (finditer 0 text)"

subsection \<open>Score results\<close>

record ScoreResult =
  model_name :: ustring
  source_label :: ustring
  "method" :: ustring
  score :: real
  char_score :: real
  word_score :: real
  token_set_score :: real

definition to_markdown_row :: "'fs pylib \<Rightarrow> ScoreResult \<Rightarrow> ustring" where
  "to_markdown_row L r =
     ustr ''| '' @ model_name r @ ustr '' | `'' @ source_label r @ ustr ''` | `'' @ method r
     @ ustr ''` | '' @ format_4f L (score r) @ ustr '' | '' @ format_4f L (char_score r)
     @ ustr '' | '' @ format_4f L (word_score r) @ ustr '' | ''
     @ format_4f L (token_set_score r) @ ustr '' |''"

subsection \<open>The metrics and \<open>compute_detailed_score\<close>\<close>

text \<open>The inner function \<open>normalize\<close>, with the two flags it reads from its closure.\<close>

definition normalize :: "'fs pylib \<Rightarrow> bool \<Rightarrow> bool \<Rightarrow> ustring \<Rightarrow> ustring" where
  "normalize L collapse_whitespace ignore_case text =
     (let processed = text;
          processed = (if collapse_whitespace
                       then str_join (ustr '' '') (str_split (isspace L) processed)
                       else processed);
          processed = (if ignore_case then str_lower L processed else processed)
      in processed)"

text \<open>
  The three blocks of \<open>compute_detailed_score\<close> that compute the character-level, the
  word-level and the token-set score, each as a function of what it reads.
\<close>

definition char_metric :: "'fs pylib \<Rightarrow> ustring \<Rightarrow> ustring \<Rightarrow> real" where
  "char_metric L original_norm decoded_norm =
     SequenceMatcher_ratio L (elements original_norm) (elements decoded_norm)"

definition word_metric :: "'fs pylib \<Rightarrow> ustring list \<Rightarrow> ustring list \<Rightarrow> real" where
  "word_metric L words_original words_decoded =
     (if words_original = [] \<and> words_decoded = [] then 1
      else if words_original = [] \<or> words_decoded = [] then 0
      else SequenceMatcher_ratio L words_original words_decoded)"

definition token_set_metric :: "ustring list \<Rightarrow> ustring list \<Rightarrow> real" where
  "token_set_metric words_original words_decoded =
     (if words_original \<noteq> [] \<or> words_decoded \<noteq> []
      then (let union' = set words_original \<union> set words_decoded
            in if union' \<noteq> {}
               then (let intersection = set words_original \<inter> set words_decoded
                     in real (card intersection) / real (card union'))
               else 1)
      else 1)"

definition compute_detailed_score ::
  "'fs pylib \<Rightarrow> ustring \<Rightarrow> ustring \<Rightarrow> bool \<Rightarrow> bool \<Rightarrow> ustring \<Rightarrow> ustring \<Rightarrow> ustring
     \<Rightarrow> error + ScoreResult" where
  "compute_detailed_score L original decoded ignore_case collapse_whitespace method' name
       source_label' =
     (let original_norm = normalize L collapse_whitespace ignore_case original;
          decoded_norm = normalize L collapse_whitespace ignore_case decoded;
          char_score' = char_metric L original_norm decoded_norm;
          words_original = findall original_norm;
          words_decoded = findall decoded_norm;
          word_score' = word_metric L words_original words_decoded;
          token_set_score' = token_set_metric words_original words_decoded;
          method_lower = str_lower L method'
      in case (if method_lower = ustr ''char'' then Inr char_score'
               else if method_lower = ustr ''word'' then Inr word_score'
               else if method_lower = ustr ''token_set'' then Inr token_set_score'
               else if method_lower = ustr ''hybrid''
                    then Inr ((char_score' + word_score' + token_set_score') / 3)
               else Inl (ValueError (ustr ''Unsupported scoring method: '' @ method'))) of
           Inl e \<Rightarrow> Inl e
         | Inr final_score \<Rightarrow>
             Inr \<lparr>model_name = name, source_label = source_label', method = method_lower,
                  score = final_score, char_score = char_score', word_score = word_score',
                  token_set_score = token_set_score'\<rparr>)"

subsection \<open>Logging and \<open>score_decoded_text\<close>\<close>

text \<open>The index of the first element that satisfies \<open>P\<close>, if there is one.\<close>

fun first_index :: "('a \<Rightarrow> bool) \<Rightarrow> 'a list \<Rightarrow> nat option" where
  "first_index P [] = None"
| "first_index P (x # xs) =
     (if P x then Some 0 else map_option Suc (first_index P xs))"

text \<open>\<open>lines.append(row)\<close> or \<open>lines.insert(insertion_index, row)\<close>\<close>

definition insert_row :: "nat option \<Rightarrow> ustring \<Rightarrow> ustring list \<Rightarrow> ustring list" where
  "insert_row insertion_index row lines =
     (case insertion_index of
        None \<Rightarrow> lines @ [row]
      | Some idx \<Rightarrow> take idx lines @ [row] @ drop idx lines)"

definition log_decoding_score :: "'fs pylib \<Rightarrow> 'fs \<Rightarrow> ScoreResult \<Rightarrow> ustring \<Rightarrow> 'fs" where
  "log_decoding_score L fs result results_file =
     (let header = ustr ''# Decoding Evaluations'' @ [10, 10]
                   @ ustr ''| Model | Source | Method | Score | Char | Word | Token |'' @ [10]
                   @ ustr ''|-------|--------|--------|-------|------|------|-------|'' @ [10];
          row = to_markdown_row L result @ [10];
          results_path = Path_resolve L fs results_file;
          fs = Path_mkdir L fs (Path_parent L results_path)
      in if \<not> Path_exists L fs results_path
         then Path_write_text L fs results_path (header @ row)
         else (let lines = splitlines_keepends L (Path_read_text L fs results_path);
                   insertion_index = first_index (\<lambda>line. take 2 line = ustr ''- '') lines
               in Path_write_text L fs results_path
                    (concat (insert_row insertion_index row lines))))"

text \<open>
  \<open>score_decoded_text\<close> returns the score, or raises; the model returns that result
  beside the file system the call leaves behind.
\<close>

definition score_decoded_text ::
  "'fs pylib \<Rightarrow> 'fs \<Rightarrow> ustring \<Rightarrow> ustring \<Rightarrow> bool \<Rightarrow> bool \<Rightarrow> ustring \<Rightarrow> ustring option
     \<Rightarrow> ustring \<Rightarrow> ustring \<Rightarrow> (error + real) \<times> 'fs" where
  "score_decoded_text L fs original decoded ignore_case collapse_whitespace method' name
       source_label' results_file =
     (case compute_detailed_score L original decoded ignore_case collapse_whitespace method'
             (case name of None \<Rightarrow> ustr ''unnamed''
              | Some n \<Rightarrow> if n = [] then ustr ''unnamed'' else n)
             source_label' of
        Inl e \<Rightarrow> (Inl e, fs)
      | Inr result \<Rightarrow>
          (Inr (score result),
           case name of
             None \<Rightarrow> fs
           | Some n \<Rightarrow> if n = [] then fs else log_decoding_score L fs result results_file))"

section \<open>Scoring in the single-file module (word\_salat.py)\<close>

definition ws_log_decoding_score ::
  "'fs pylib \<Rightarrow> 'fs \<Rightarrow> ustring \<Rightarrow> ustring \<Rightarrow> ustring \<Rightarrow> real \<Rightarrow> ustring \<Rightarrow> 'fs" where
  "ws_log_decoding_score L fs model_name' source_label' method' score' results_file =
     (let header = ustr ''# Decoding Evaluations'' @ [10, 10]
                   @ ustr ''| Model             | Source Text | Method      | Score  | Notes |'' @ [10]
                   @ ustr ''|-------------------|-------------|-------------|--------|-------|'' @ [10];
          row = ustr ''| '' @ model_name' @ ustr '' | `'' @ source_label' @ ustr ''` | `''
                @ method' @ ustr ''` | '' @ format_4f L score'
                @ ustr '' | Auto-logged via score_decoded_text. |'' @ [10];
          results_path = os_path_abspath L fs results_file;
          fs = os_makedirs L fs (os_path_dirname L results_path)
      in if \<not> os_path_exists L fs results_path
         then open_write L fs results_path [header, row]
         else (let lines = open_readlines L fs results_path;
                   insertion_index = first_index (\<lambda>line. take 2 line = ustr ''- '') lines
               in open_write L fs results_path (insert_row insertion_index row lines)))"

definition ws_score_decoded_text ::
  "'fs pylib \<Rightarrow> 'fs \<Rightarrow> ustring \<Rightarrow> ustring \<Rightarrow> bool \<Rightarrow> bool \<Rightarrow> ustring \<Rightarrow> ustring option
     \<Rightarrow> ustring \<Rightarrow> ustring \<Rightarrow> (error + real) \<times> 'fs" where
  "ws_score_decoded_text L fs original decoded ignore_case collapse_whitespace method' name
       source_label' results_file =
     (let original_norm = normalize L collapse_whitespace ignore_case original;
          decoded_norm = normalize L collapse_whitespace ignore_case decoded;
          char_ratio = SequenceMatcher_ratio L (elements original_norm) (elements decoded_norm);
          words_original = findall original_norm;
          words_decoded = findall decoded_norm;
          word_ratio = (if words_original = [] \<and> words_decoded = [] then Some 1
                        else if words_original = [] \<or> words_decoded = [] then Some 0
                        else Some (SequenceMatcher_ratio L words_original words_decoded));
          token_set_ratio = token_set_metric words_original words_decoded;
          method_normalized = str_lower L method'
      in case (if method_normalized = ustr ''char'' then Inr char_ratio
               else if method_normalized = ustr ''word''
                    then Inr (case word_ratio of Some w \<Rightarrow> w | None \<Rightarrow> char_ratio)
               else if method_normalized = ustr ''token_set'' then Inr token_set_ratio
               else if method_normalized = ustr ''hybrid''
                    then (let components = [char_ratio]
                                @ (case word_ratio of Some w \<Rightarrow> [w] | None \<Rightarrow> [])
                                @ [token_set_ratio]
                          in Inr (sum_list components / real (length components)))
               else Inl (ValueError (ustr ''Unsupported scoring method: '' @ method'))) of
           Inl e \<Rightarrow> (Inl e, fs)
         | Inr score' \<Rightarrow>
             (Inr score',
              case name of
                None \<Rightarrow> fs
              | Some n \<Rightarrow>
                  if n = [] then fs
                  else ws_log_decoding_score L fs n source_label' method_normalized score'
                         results_file))"

section \<open>Notions and examples for the properties of the scorer\<close>

text \<open>
  The three metrics of a pair of texts under given flags: each metric applied to the
  normalized texts, or to their word lists, as \<open>compute_detailed_score\<close> does.
\<close>

definition pair_char_score :: "'fs pylib \<Rightarrow> bool \<Rightarrow> bool \<Rightarrow> ustring \<Rightarrow> ustring \<Rightarrow> real" where
  "pair_char_score L ignore_case collapse_whitespace original decoded =
     char_metric L (normalize L collapse_whitespace ignore_case original)
       (normalize L collapse_whitespace ignore_case decoded)"

definition pair_word_score :: "'fs pylib \<Rightarrow> bool \<Rightarrow> bool \<Rightarrow> ustring \<Rightarrow> ustring \<Rightarrow> real" where
  "pair_word_score L ignore_case collapse_whitespace original decoded =
     word_metric L (findall (normalize L collapse_whitespace ignore_case original))
       (findall (normalize L collapse_whitespace ignore_case decoded))"

definition pair_token_set_score :: "'fs pylib \<Rightarrow> bool \<Rightarrow> bool \<Rightarrow> ustring \<Rightarrow> ustring \<Rightarrow> real" where
  "pair_token_set_score L ignore_case collapse_whitespace original decoded =
     token_set_metric (findall (normalize L collapse_whitespace ignore_case original))
       (findall (normalize L collapse_whitespace ignore_case decoded))"

text \<open>
  \<open>casing_of m n\<close>: the string \<open>m\<close> is \<open>n\<close> with some of its characters replaced by the
  upper-case ASCII letter of which they are the lower-case form.
\<close>

definition casing_of :: "ustring \<Rightarrow> ustring \<Rightarrow> bool" where
  "casing_of m n \<longleftrightarrow>
     list_all2 (\<lambda>a b. a = b \<or> (0x41 \<le> a \<and> a \<le> 0x5A \<and> a + 0x20 = b)) m n"

definition valid_methods :: "ustring set" where
  "valid_methods = {ustr ''char'', ustr ''word'', ustr ''token_set'', ustr ''hybrid''}"

text \<open>
  An instance of the library, to evaluate the model on examples. Its file system maps
  a path to the text of the file; paths are taken as they are and directories are not
  recorded. Its case mapping, whitespace test and ratio are those of Python on the
  inputs of the examples: ASCII texts, and for the ratio identical sequences (1.0) and
  sequences without a common item (0.0).
\<close>

fun lines_keepends :: "ustring \<Rightarrow> ustring \<Rightarrow> ustring list" where
  "lines_keepends acc [] = (if acc = [] then [] else [acc])"
| "lines_keepends acc (c # cs) =
     (if c = 10 then (acc @ [c]) # lines_keepends [] cs else lines_keepends (acc @ [c]) cs)"

definition example_lib :: "(ustring \<Rightarrow> ustring option) pylib" where
  "example_lib =
     \<lparr>unicode_lower = (\<lambda>s. s),
      isspace = (\<lambda>c. c = 0x20 \<or> (0x09 \<le> c \<and> c \<le> 0x0D)),
      SequenceMatcher_ratio = (\<lambda>a b. if a = b then 1 else 0),
      format_4f = (\<lambda>x. ustr ''?''),
      Path_resolve = (\<lambda>fs p. p),
      Path_parent = (\<lambda>p. p),
      Path_mkdir = (\<lambda>fs p. fs),
      Path_exists = (\<lambda>fs p. fs p \<noteq> None),
      Path_read_text = (\<lambda>fs p. case fs p of None \<Rightarrow> [] | Some t \<Rightarrow> t),
      Path_write_text = (\<lambda>fs p t. fs(p \<mapsto> t)),
      splitlines_keepends = lines_keepends [],
      os_path_abspath = (\<lambda>fs p. p),
      os_path_dirname = (\<lambda>p. p),
      os_makedirs = (\<lambda>fs p. fs),
      os_path_exists = (\<lambda>fs p. fs p \<noteq> None),
      open_write = (\<lambda>fs p ts. fs(p \<mapsto> concat ts)),
      open_readlines = (\<lambda>fs p. case fs p of None \<Rightarrow> [] | Some t \<Rightarrow> lines_keepends [] t)\<rparr>"

section \<open>Properties of the scrambler\<close>

subsection \<open>Indexing, shuffling and assignment\<close>

lemma py_index_valid: "valid_index n i \<Longrightarrow> py_index n i = Inr (py_pos n i)"
  by (auto simp: valid_index_def py_index_def py_pos_def Let_def)

lemma py_index_invalid: "\<not> valid_index n i \<Longrightarrow> py_index n i = Inl IndexError"
  by (auto simp: valid_index_def py_index_def Let_def)

lemma py_pos_less: "valid_index n i \<Longrightarrow> py_pos n i < n"
  by (auto simp: valid_index_def py_pos_def)

lemma shuffle_from_mset: "i < length x \<Longrightarrow> mset (fst (shuffle_from i x g)) = mset x"
proof (induction i arbitrary: x g)
  case 0
  then show ?case by simp
next
  case (Suc i)
  have j: "g 0 mod (Suc i + 1) < length x" using Suc.prems
    by (metis Suc_eq_plus1 Suc_leI less_le_trans mod_less_divisor zero_less_Suc)
  have "mset (x[Suc i := x ! (g 0 mod (Suc i + 1)), g 0 mod (Suc i + 1) := x ! Suc i]) = mset x"
    using mset_swap [OF j Suc.prems] .
  moreover have "i < length (x[Suc i := x ! (g 0 mod (Suc i + 1)), g 0 mod (Suc i + 1) := x ! Suc i])"
    using Suc.prems by simp
  ultimately show ?case using Suc.IH by (simp add: randbelow_def)
qed

lemma shuffle_mset: "mset (fst (shuffle x g)) = mset x"
  by (cases x) (simp_all add: shuffle_def shuffle_from_mset)

lemma shuffle_length: "length (fst (shuffle x g)) = length x"
  using shuffle_mset [of x g] by (metis size_mset)

lemma shuffle_from_rng: "snd (shuffle_from i x g) = (\<lambda>k. g (k + i))"
  by (induction i arbitrary: x g) (simp_all add: randbelow_def)

lemma shuffle_rng: "snd (shuffle x g) = (\<lambda>k. g (k + (length x - 1)))"
  by (simp add: shuffle_def shuffle_from_rng)

lemma subset_at_valid:
  "\<forall>i\<in>set idxs. valid_index (length chars) i \<Longrightarrow>
   subset_at chars idxs = Inr (map (\<lambda>i. chars ! py_pos (length chars) i) idxs)"
  by (induction idxs) (simp_all add: py_index_valid)

lemma assign_at_valid:
  "\<forall>i\<in>set idxs. valid_index (length c) i \<Longrightarrow>
   \<exists>c'. assign_at c (zip idxs vs) = Inr c' \<and> length c' = length c \<and>
        (\<forall>k. k \<notin> py_pos (length c) ` set idxs \<longrightarrow> c' ! k = c ! k)"
proof (induction idxs arbitrary: c vs)
  case Nil
  then show ?case by simp
next
  case (Cons i idxs)
  show ?case
  proof (cases vs)
    case Nil
    then show ?thesis by simp
  next
    case (Cons v vs')
    have v: "valid_index (length c) i" using Cons.prems by simp
    have "\<forall>j\<in>set idxs. valid_index (length (c[py_pos (length c) i := v])) j"
      using Cons.prems by simp
    from Cons.IH [OF this, of vs'] obtain c' where
      c': "assign_at (c[py_pos (length c) i := v]) (zip idxs vs') = Inr c'"
        "length c' = length c"
        "\<forall>k. k \<notin> py_pos (length c) ` set idxs \<longrightarrow> c' ! k = c[py_pos (length c) i := v] ! k"
      by auto
    show ?thesis using c' v Cons by (auto simp: py_index_valid)
  qed
qed

lemma assign_at_mset:
  "length vs = length idxs \<Longrightarrow> \<forall>i\<in>set idxs. valid_index (length c) i \<Longrightarrow>
   distinct (map (py_pos (length c)) idxs) \<Longrightarrow> assign_at c (zip idxs vs) = Inr c' \<Longrightarrow>
   mset c' + mset (map (\<lambda>i. c ! py_pos (length c) i) idxs) = mset c + mset vs"
proof (induction idxs arbitrary: c vs)
  case Nil
  then show ?case by simp
next
  case (Cons i idxs)
  then obtain v vs' where vs: "vs = v # vs'" by (cases vs) auto
  let ?k = "py_pos (length c) i"
  let ?c1 = "c[?k := v]"
  have v: "valid_index (length c) i" using Cons.prems by simp
  have k: "?k < length c" using v by (rule py_pos_less)
  have a: "assign_at ?c1 (zip idxs vs') = Inr c'"
    using Cons.prems(4) v by (simp add: vs py_index_valid)
  have ih: "mset c' + mset (map (\<lambda>i. ?c1 ! py_pos (length ?c1) i) idxs) = mset ?c1 + mset vs'"
    using Cons.prems a by (intro Cons.IH) (simp_all add: vs)
  have same: "map (\<lambda>i. ?c1 ! py_pos (length ?c1) i) idxs = map (\<lambda>i. c ! py_pos (length c) i) idxs"
  proof (rule map_cong [OF refl])
    fix j assume "j \<in> set idxs"
    then have "py_pos (length c) j \<noteq> ?k" using Cons.prems(3) by (auto simp: image_iff)
    then show "?c1 ! py_pos (length ?c1) j = c ! py_pos (length c) j" by simp
  qed
  have upd: "mset ?c1 = add_mset v (mset c - {#c ! ?k#})"
    using k by (rule mset_update)
  have mem: "add_mset (c ! ?k) (mset c - {#c ! ?k#}) = mset c"
    using k by (simp add: insert_DiffM)
  have "mset c' + mset (map (\<lambda>i. c ! py_pos (length c) i) (i # idxs))
        = add_mset (c ! ?k) (mset c' + mset (map (\<lambda>i. c ! py_pos (length c) i) idxs))"
    by simp
  also have "\<dots> = add_mset (c ! ?k) (mset ?c1 + mset vs')"
    by (rule arg_cong [OF ih [unfolded same]])
  also have "\<dots> = add_mset v (add_mset (c ! ?k) (mset c - {#c ! ?k#})) + mset vs'"
    unfolding upd by simp
  also have "\<dots> = mset c + mset vs"
    unfolding mem by (simp add: vs)
  finally show ?case .
qed


lemma attempt_loop_inv:
  assumes "P original_chars"
    and "\<And>g. \<exists>c. assign_at original_chars (zip indices (fst (shuffle subs g))) = Inr c \<and> P c"
  shows "\<exists>out g'. attempt_loop n original_chars indices subs g = Inr (out, g') \<and> P out"
proof (induction n arbitrary: g)
  case 0
  show ?case using assms(1) by simp
next
  case (Suc n)
  obtain c where c: "assign_at original_chars (zip indices (fst (shuffle subs g))) = Inr c" "P c"
    using assms(2) by blast
  show ?case
  proof (cases "c = original_chars")
    case True
    then show ?thesis using c Suc.IH [of "snd (shuffle subs g)"] by (simp add: split_beta)
  next
    case False
    then show ?thesis using c by (simp add: split_beta)
  qed
qed

lemma attempt_shuffle_sound:
  assumes valid: "\<forall>i\<in>set indices. valid_index (length chars) i"
    and dist: "distinct (map (py_pos (length chars)) indices)"
  shows "\<exists>out g'. attempt_shuffle chars indices g m = Inr (out, g') \<and>
           length out = length chars \<and> mset out = mset chars \<and>
           (\<forall>k. k \<notin> py_pos (length chars) ` set indices \<longrightarrow> out ! k = chars ! k)"
proof -
  let ?P = "\<lambda>out. length out = length chars \<and> mset out = mset chars \<and>
           (\<forall>k. k \<notin> py_pos (length chars) ` set indices \<longrightarrow> out ! k = chars ! k)"
  let ?subs = "map (\<lambda>i. chars ! py_pos (length chars) i) indices"
  have sub: "subset_at chars indices = Inr ?subs"
    using valid by (rule subset_at_valid)
  have step: "\<exists>c. assign_at chars (zip indices (fst (shuffle ?subs g))) = Inr c \<and> ?P c" for g
  proof -
    let ?vs = "fst (shuffle ?subs g)"
    obtain c where c: "assign_at chars (zip indices ?vs) = Inr c" "length c = length chars"
      "\<forall>k. k \<notin> py_pos (length chars) ` set indices \<longrightarrow> c ! k = chars ! k"
      using assign_at_valid [OF valid, of ?vs] by blast
    have len: "length ?vs = length indices" by (simp add: shuffle_length)
    have "mset c + mset ?subs = mset chars + mset ?vs"
      using assign_at_mset [OF len valid dist c(1)] .
    then have "mset c = mset chars" by (simp add: shuffle_mset)
    then show ?thesis using c by blast
  qed
  have "?P chars" by simp
  from attempt_loop_inv [of ?P chars indices ?subs "nat m" g, OF this step]
  show ?thesis unfolding attempt_shuffle_def sub by auto
qed

lemma interior_mset:
  assumes "2 \<le> length xs" "length ys = length xs" "xs ! 0 = ys ! 0" "last xs = last ys"
    "mset xs = mset ys"
  shows "mset (butlast (tl xs)) = mset (butlast (tl ys))"
proof -
  have dec: "zs = zs ! 0 # butlast (tl zs) @ [last zs]" if "2 \<le> length zs" for zs :: "'a list"
  proof (cases zs)
    case Nil
    then show ?thesis using that by simp
  next
    case (Cons z zs')
    then have "zs' \<noteq> []" using that by auto
    then show ?thesis using Cons by simp
  qed
  have m: "mset zs = add_mset (zs ! 0) (add_mset (last zs) (mset (butlast (tl zs))))"
    if "2 \<le> length zs" for zs :: "'a list"
  proof -
    have "mset zs = mset (zs ! 0 # butlast (tl zs) @ [last zs])"
      using dec [OF that] by simp
    then show ?thesis by simp
  qed
  have "add_mset (xs ! 0) (add_mset (last xs) (mset (butlast (tl xs))))
        = add_mset (ys ! 0) (add_mset (last ys) (mset (butlast (tl ys))))"
    using m [of xs] m [of ys] assms(1,2,5) by simp
  then show ?thesis using assms(3,4) by simp
qed

lemma scramble_word_sound:
  "\<exists>out g'. scramble_word w g = Inr (out, g') \<and> length out = length w \<and> mset out = mset w \<and>
     (\<forall>k. k = 0 \<or> length w \<le> k + 1 \<or> (odd (length w) \<and> k = length w div 2) \<longrightarrow> out ! k = w ! k)"
proof (cases "length w \<le> 3")
  case True
  then show ?thesis by (simp add: scramble_word_def)
next
  case False
  define n where "n = length w"
  define base where "base = [1 .. int n - 1 - 1]"
  define mid where "mid = int (n div 2)"
  define idx where
    "idx = (if n mod 2 = 1 then (if mid \<in> set base then remove1 mid base else base) else base)"
  have sw: "scramble_word w g = attempt_shuffle w idx g MAX_SHUFFLE_ATTEMPTS"
    using False by (simp add: scramble_word_def Let_def idx_def base_def mid_def n_def)
  have n4: "4 \<le> n" using False by (simp add: n_def)
  have "1 \<le> mid" "mid \<le> int n - 1 - 1" using n4 unfolding mid_def by linarith+
  then have midin: "mid \<in> set base" by (simp add: base_def)
  have dist_base: "distinct base" by (simp add: base_def)
  have set_idx: "set idx = {1 .. int n - 2} - (if odd n then {mid} else {})"
  proof (cases "odd n")
    case True
    then have "n mod 2 = 1" by (simp add: odd_iff_mod_2_eq_one)
    then have "idx = remove1 mid base" using midin by (simp add: idx_def)
    then show ?thesis using True dist_base by (simp add: set_remove1_eq base_def)
  next
    case False
    then have "n mod 2 \<noteq> 1" by (simp add: odd_iff_mod_2_eq_one)
    then have "idx = base" by (simp add: idx_def)
    then show ?thesis using False by (simp add: base_def)
  qed
  have dist_idx: "distinct idx" using dist_base by (simp add: idx_def)
  have range: "1 \<le> i \<and> i \<le> int n - 2" if "i \<in> set idx" for i
    using that unfolding set_idx by simp
  have valid: "\<forall>i\<in>set idx. valid_index (length w) i"
  proof
    fix i assume "i \<in> set idx"
    from range [OF this] show "valid_index (length w) i"
      by (simp add: valid_index_def n_def)
  qed
  have pos: "py_pos (length w) i = nat i" if "i \<in> set idx" for i
    using range [OF that] by (simp add: py_pos_def)
  have "inj_on (py_pos (length w)) (set idx)"
  proof (rule inj_onI)
    fix x y assume xy: "x \<in> set idx" "y \<in> set idx" "py_pos (length w) x = py_pos (length w) y"
    then have "nat x = nat y" by (simp add: pos)
    moreover have "0 \<le> x" "0 \<le> y" using range [OF xy(1)] range [OF xy(2)] by linarith+
    ultimately show "x = y" by linarith
  qed
  then have dist: "distinct (map (py_pos (length w)) idx)"
    using dist_idx by (simp add: distinct_map)
  obtain out g' where out: "attempt_shuffle w idx g MAX_SHUFFLE_ATTEMPTS = Inr (out, g')"
    "length out = length w" "mset out = mset w"
    "\<forall>k. k \<notin> py_pos (length w) ` set idx \<longrightarrow> out ! k = w ! k"
    using attempt_shuffle_sound [OF valid dist, of g MAX_SHUFFLE_ATTEMPTS] by blast
  have fixed: "out ! k = w ! k"
    if k: "k = 0 \<or> length w \<le> k + 1 \<or> (odd (length w) \<and> k = length w div 2)" for k
  proof -
    have "k \<notin> py_pos (length w) ` set idx"
    proof
      assume "k \<in> py_pos (length w) ` set idx"
      then obtain i where i: "i \<in> set idx" "k = py_pos (length w) i" by blast
      then have ki: "k = nat i" using pos by simp
      have r: "1 \<le> i" "i \<le> int n - 2" using range [OF i(1)] by simp_all
      have "odd n \<Longrightarrow> i \<noteq> mid" using i(1) unfolding set_idx by simp
      then have "odd n \<Longrightarrow> k \<noteq> n div 2" using ki r unfolding mid_def by linarith
      moreover have "k \<noteq> 0" "k + 1 < n" using ki r by linarith+
      ultimately show False using k unfolding n_def by linarith
    qed
    then show ?thesis using out(4) by blast
  qed
  show ?thesis unfolding sw
  proof (intro exI conjI allI impI)
    show "attempt_shuffle w idx g MAX_SHUFFLE_ATTEMPTS = Inr (out, g')" by (rule out(1))
    show "length out = length w" by (rule out(2))
    show "mset out = mset w" by (rule out(3))
    show "out ! k = w ! k"
      if "k = 0 \<or> length w \<le> k + 1 \<or> (odd (length w) \<and> k = length w div 2)" for k
      using that by (rule fixed)
  qed
qed

subsection \<open>The attempts of the shuffle loop\<close>

lemma rng_after_Suc_right: "rng_after (Suc k) subs g = snd (shuffle subs (rng_after k subs g))"
  by (induction k arbitrary: g) simp_all

lemma candidate_at_0: "candidate_at chars indices subs g 0 = assign_at chars (zip indices (fst (shuffle subs g)))"
  by (simp add: candidate_at_def)

lemma candidate_at_Suc:
  "candidate_at chars indices subs g (Suc j) = candidate_at chars indices subs (snd (shuffle subs g)) j"
  by (simp add: candidate_at_def)

lemma attempt_loop_trace:
  assumes ok: "\<And>g. \<exists>c. assign_at chars (zip indices (fst (shuffle subs g))) = Inr c"
  shows "\<exists>out k. attempt_loop n chars indices subs g = Inr (out, rng_after k subs g) \<and> k \<le> n \<and>
           ((out = chars \<and> k = n \<and> (\<forall>j<n. candidate_at chars indices subs g j = Inr chars)) \<or>
            (out \<noteq> chars \<and> 0 < k \<and> candidate_at chars indices subs g (k - 1) = Inr out))"
proof (induction n arbitrary: g)
  case 0
  show ?case by simp
next
  case (Suc n)
  obtain c where c: "assign_at chars (zip indices (fst (shuffle subs g))) = Inr c"
    using ok by blast
  let ?g' = "snd (shuffle subs g)"
  show ?case
  proof (cases "c = chars")
    case False
    have "attempt_loop (Suc n) chars indices subs g = Inr (c, rng_after 1 subs g)"
      using c False by (simp add: split_beta)
    moreover have "candidate_at chars indices subs g (1 - 1) = Inr c"
      using c by (simp add: candidate_at_0)
    ultimately show ?thesis using False
      by (intro exI [of _ c] exI [of _ 1]) simp
  next
    case True
    obtain out k where ih: "attempt_loop n chars indices subs ?g' = Inr (out, rng_after k subs ?g')"
      "k \<le> n"
      "(out = chars \<and> k = n \<and> (\<forall>j<n. candidate_at chars indices subs ?g' j = Inr chars)) \<or>
       (out \<noteq> chars \<and> 0 < k \<and> candidate_at chars indices subs ?g' (k - 1) = Inr out)"
      using Suc.IH [of ?g'] by blast
    have run: "attempt_loop (Suc n) chars indices subs g = Inr (out, rng_after (Suc k) subs g)"
      using c True ih(1) by (simp add: split_beta)
    from ih(3) have
      "(out = chars \<and> Suc k = Suc n \<and> (\<forall>j<Suc n. candidate_at chars indices subs g j = Inr chars)) \<or>
       (out \<noteq> chars \<and> 0 < Suc k \<and> candidate_at chars indices subs g (Suc k - 1) = Inr out)"
    proof
      assume a: "out = chars \<and> k = n \<and> (\<forall>j<n. candidate_at chars indices subs ?g' j = Inr chars)"
      have "candidate_at chars indices subs g j = Inr chars" if "j < Suc n" for j
      proof (cases j)
        case 0
        then show ?thesis using c True by (simp add: candidate_at_0)
      next
        case (Suc j')
        then show ?thesis using a that by (simp add: candidate_at_Suc)
      qed
      then show ?thesis using a by blast
    next
      assume a: "out \<noteq> chars \<and> 0 < k \<and> candidate_at chars indices subs ?g' (k - 1) = Inr out"
      then obtain k' where k': "k = Suc k'" by (cases k) auto
      have "candidate_at chars indices subs g (Suc k - 1) = Inr out"
        using a by (simp add: k' candidate_at_Suc)
      then show ?thesis using a by blast
    qed
    with run ih(2) show ?thesis
      by (intro exI [of _ out] exI [of _ "Suc k"]) simp
  qed
qed

subsection \<open>Texts\<close>

lemma same_shape_refl: "same_shape xs xs"
  unfolding same_shape_def by (rule list_all2_refl) simp

lemma same_shape_append:
  "same_shape xs xs' \<Longrightarrow> same_shape ys ys' \<Longrightarrow> same_shape (xs @ ys) (xs' @ ys')"
  unfolding same_shape_def by (rule list_all2_appendI)

lemma same_shape_word:
  assumes "\<forall>c\<in>set w. is_word_char c" "length out = length w" "mset out = mset w"
  shows "same_shape w out"
proof -
  have "set out = set w" using assms(3) by (rule mset_eq_setD)
  then have "\<forall>c\<in>set out. is_word_char c" using assms(1) by simp
  then show ?thesis using assms(1,2)
    unfolding same_shape_def by (simp add: list_all2_conv_all_nth)
qed

lemma same_shape_nth:
  assumes "same_shape t out"
  shows "length out = length t"
    and "i < length t \<Longrightarrow> \<not> is_word_char (t ! i) \<Longrightarrow> out ! i = t ! i"
    and "i < length t \<Longrightarrow> is_word_char (t ! i) \<Longrightarrow> is_word_char (out ! i)"
proof -
  show "length out = length t" using assms unfolding same_shape_def
    by (simp add: list_all2_lengthD)
  show "out ! i = t ! i" if "i < length t" "\<not> is_word_char (t ! i)"
    using assms that unfolding same_shape_def by (auto dest: list_all2_nthD)
  show "is_word_char (out ! i)" if "i < length t" "is_word_char (t ! i)"
    using assms that unfolding same_shape_def by (auto dest: list_all2_nthD)
qed

lemma scramble_segments_loop_shape:
  assumes "cs = drop pos text" "last_index \<le> pos" "pos \<le> length text"
  shows "\<exists>segments g'. scramble_segments_loop text (finditer pos cs) last_index g = Inr (segments, g') \<and>
           same_shape (drop last_index text) (concat segments)"
  using assms
proof (induction pos cs arbitrary: last_index g rule: finditer.induct)
  case (1 pos)
  then show ?case by (simp add: same_shape_refl)
next
  case (2 pos c cs)
  have pos: "pos < length text" using "2.prems"(1,3)
    by (metis drop_all leI list.distinct(1))
  have cs: "cs = drop (pos + 1) text" using "2.prems"(1)
    by (metis drop_Suc tl_drop list.sel(3) Suc_eq_plus1)
  show ?case
  proof (cases "is_word_char c")
    case False
    have "\<exists>segments g'. scramble_segments_loop text (finditer (pos + 1) cs) last_index g = Inr (segments, g') \<and>
           same_shape (drop last_index text) (concat segments)"
      using False cs "2.prems"(2) pos by (intro "2.IH"(2)) simp_all
    then show ?thesis using False by simp
  next
    case True
    let ?n = "length (takeWhile is_word_char cs)"
    let ?stop = "pos + 1 + ?n"
    let ?word = "slice text pos ?stop"
    have n: "?n \<le> length cs" by (rule length_takeWhile_le)
    have lencs: "length cs = length text - (pos + 1)" using cs by simp
    have stop: "?stop \<le> length text" using n lencs pos by linarith
    have word: "?word = c # takeWhile is_word_char cs"
    proof -
      have "?word = take (1 + ?n) (drop pos text)" by (simp add: slice_def)
      also have "\<dots> = take (1 + ?n) (c # cs)" using "2.prems"(1) by simp
      also have "\<dots> = c # take ?n cs" by simp
      also have "\<dots> = c # takeWhile is_word_char cs" by (simp add: takeWhile_eq_take [symmetric])
      finally show ?thesis .
    qed
    have rest: "dropWhile is_word_char cs = drop ?stop text"
    proof -
      have "dropWhile is_word_char cs = drop ?n cs" by (rule dropWhile_eq_drop)
      also have "\<dots> = drop ?stop text" unfolding cs by (simp add: add.commute)
      finally show ?thesis .
    qed
    have letters: "\<forall>x\<in>set ?word. is_word_char x"
      unfolding word using True by (auto dest: set_takeWhileD)
    obtain w g1 where w: "scramble_word ?word g = Inr (w, g1)" "length w = length ?word"
      "mset w = mset ?word"
      using scramble_word_sound [of ?word g] by blast
    have shape_w: "same_shape ?word w" using letters w(2,3) by (rule same_shape_word)
    obtain segments g2 where ih:
      "scramble_segments_loop text (finditer ?stop (dropWhile is_word_char cs)) ?stop g1 = Inr (segments, g2)"
      "same_shape (drop ?stop text) (concat segments)"
      using "2.IH"(1) [OF True rest le_refl stop, of g1] by blast
    let ?lit = "slice text last_index pos"
    have e1: "drop (pos - last_index) (drop last_index text) = drop pos text"
      using "2.prems"(2) by simp
    have ar: "?stop - pos + pos = ?stop" by linarith
    have e2: "drop (?stop - pos) (drop pos text) = drop ?stop text"
      unfolding drop_drop ar ..
    have d1: "drop last_index text = ?lit @ drop pos text"
      unfolding slice_def e1 [symmetric] by (rule append_take_drop_id [symmetric])
    have d2: "drop pos text = ?word @ drop ?stop text"
      unfolding slice_def e2 [symmetric] by (rule append_take_drop_id [symmetric])
    have decomp: "drop last_index text = ?lit @ ?word @ drop ?stop text"
      using d1 d2 by simp
    have litempty: "?lit = []" if "\<not> last_index < pos"
      using that by (simp add: slice_def)
    have run: "scramble_segments_loop text (finditer pos (c # cs)) last_index g
               = Inr ((if pos > last_index then [?lit] else []) @ [w] @ segments, g2)"
      using True w(1) ih(1) by simp
    have cc: "concat ((if pos > last_index then [?lit] else []) @ [w] @ segments) = ?lit @ w @ concat segments"
      using litempty by simp
    have shp: "same_shape (?lit @ ?word @ drop ?stop text) (?lit @ w @ concat segments)"
      by (intro same_shape_append same_shape_refl shape_w ih(2))
    show ?thesis
    proof (intro exI conjI)
      show "scramble_segments_loop text (finditer pos (c # cs)) last_index g
               = Inr ((if pos > last_index then [?lit] else []) @ [w] @ segments, g2)"
        by (rule run)
      show "same_shape (drop last_index text)
              (concat ((if pos > last_index then [?lit] else []) @ [w] @ segments))"
        unfolding decomp cc by (rule shp)
    qed
  qed
qed

lemma scramble_segments_shape:
  "\<exists>segments g'. scramble_segments text g = Inr (segments, g') \<and> same_shape text (concat segments)"
  using scramble_segments_loop_shape [of "text" 0 "text" 0 g] by (simp add: scramble_segments_def)

lemma scramble_text_total:
  "\<exists>out. scramble_text mt entropy t seed = Inr out \<and> same_shape t out"
proof -
  obtain segments g' where s: "scramble_segments t (Random mt entropy seed) = Inr (segments, g')"
    "same_shape t (concat segments)"
    using scramble_segments_shape by blast
  have "scramble_text mt entropy t seed = Inr (concat segments)"
    using s(1) by (simp add: scramble_text_def)
  then show ?thesis using s(2) by simp
qed

section \<open>Properties of the scorer\<close>

subsection \<open>Method names and the selection of the final score\<close>

lemma str_lower_valid:
  "str_lower L (ustr ''char'') = ustr ''char''"
  "str_lower L (ustr ''word'') = ustr ''word''"
  "str_lower L (ustr ''token_set'') = ustr ''token_set''"
  "str_lower L (ustr ''hybrid'') = ustr ''hybrid''"
  by (simp_all add: str_lower_def ustr_def ascii_lower_def)

lemma method_names_distinct:
  "ustr ''char'' \<noteq> ustr ''word''" "ustr ''char'' \<noteq> ustr ''token_set''"
  "ustr ''char'' \<noteq> ustr ''hybrid''" "ustr ''word'' \<noteq> ustr ''token_set''"
  "ustr ''word'' \<noteq> ustr ''hybrid''" "ustr ''token_set'' \<noteq> ustr ''hybrid''"
  "ustr ''word'' \<noteq> ustr ''char''" "ustr ''token_set'' \<noteq> ustr ''char''"
  "ustr ''hybrid'' \<noteq> ustr ''char''" "ustr ''token_set'' \<noteq> ustr ''word''"
  "ustr ''hybrid'' \<noteq> ustr ''word''" "ustr ''hybrid'' \<noteq> ustr ''token_set''"
  by (simp_all add: ustr_def)

lemma str_lower_valid_methods: "n \<in> valid_methods \<Longrightarrow> str_lower L n = n"
  unfolding valid_methods_def using str_lower_valid [of L] by auto

text \<open>The result of \<open>compute_detailed_score\<close> when the lower-cased method is valid.\<close>

lemma compute_detailed_score_valid:
  assumes "str_lower L m = n" "n \<in> valid_methods"
  shows "compute_detailed_score L orig dec ic cw m name sl =
     Inr \<lparr>model_name = name, source_label = sl, method = n,
          score = (if n = ustr ''char'' then pair_char_score L ic cw orig dec
                   else if n = ustr ''word'' then pair_word_score L ic cw orig dec
                   else if n = ustr ''token_set'' then pair_token_set_score L ic cw orig dec
                   else (pair_char_score L ic cw orig dec + pair_word_score L ic cw orig dec
                         + pair_token_set_score L ic cw orig dec) / 3),
          char_score = pair_char_score L ic cw orig dec,
          word_score = pair_word_score L ic cw orig dec,
          token_set_score = pair_token_set_score L ic cw orig dec\<rparr>"
  using assms
  unfolding valid_methods_def compute_detailed_score_def Let_def pair_char_score_def
    pair_word_score_def pair_token_set_score_def
  by (auto simp: method_names_distinct)

lemma compute_detailed_score_invalid:
  assumes "str_lower L m \<notin> valid_methods"
  shows "compute_detailed_score L orig dec ic cw m name sl =
           Inl (ValueError (ustr ''Unsupported scoring method: '' @ m))"
  using assms unfolding valid_methods_def compute_detailed_score_def Let_def by simp

lemma score_decoded_text_fst:
  "fst (score_decoded_text L fs orig dec ic cw m nm sl rf) =
     map_sum id score (compute_detailed_score L orig dec ic cw m
        (case nm of None \<Rightarrow> ustr ''unnamed'' | Some n \<Rightarrow> if n = [] then ustr ''unnamed'' else n) sl)"
  unfolding score_decoded_text_def by (simp split: sum.splits)

lemma ws_word_ratio:
  "(case (if wo = [] \<and> wd = [] then Some 1 else if wo = [] \<or> wd = [] then Some 0
          else Some (SequenceMatcher_ratio L wo wd)) of Some w \<Rightarrow> f w | None \<Rightarrow> g)
   = f (word_metric L wo wd)"
  by (simp add: word_metric_def)

lemma ws_score_decoded_text_valid:
  assumes "str_lower L m = n" "n \<in> valid_methods"
  shows "fst (ws_score_decoded_text L fs orig dec ic cw m nm sl rf) =
     Inr (if n = ustr ''char'' then pair_char_score L ic cw orig dec
          else if n = ustr ''word'' then pair_word_score L ic cw orig dec
          else if n = ustr ''token_set'' then pair_token_set_score L ic cw orig dec
          else (pair_char_score L ic cw orig dec + pair_word_score L ic cw orig dec
                + pair_token_set_score L ic cw orig dec) / 3)"
  using assms
  unfolding valid_methods_def ws_score_decoded_text_def Let_def pair_char_score_def
    pair_word_score_def pair_token_set_score_def char_metric_def ws_word_ratio
  by (auto simp: method_names_distinct)

lemma ws_score_decoded_text_invalid:
  assumes "str_lower L m \<notin> valid_methods"
  shows "ws_score_decoded_text L fs orig dec ic cw m nm sl rf =
           (Inl (ValueError (ustr ''Unsupported scoring method: '' @ m)), fs)"
  using assms unfolding valid_methods_def ws_score_decoded_text_def Let_def by simp

subsection \<open>The example library\<close>

lemma ex_ratio: "SequenceMatcher_ratio example_lib a b = (if a = b then 1 else 0)"
  by (simp add: example_lib_def)

lemma ex_isspace: "isspace example_lib c = (c = 0x20 \<or> (0x09 \<le> c \<and> c \<le> 0x0D))"
  by (simp add: example_lib_def)

lemma normalize_example_a: "normalize example_lib True True (ustr ''a'') = ustr ''a''"
  by (simp add: normalize_def ustr_def str_lower_def ascii_lower_def ex_isspace)

lemma findall_example_a: "findall (ustr ''a'') = [ustr ''a'']"
  by (simp add: findall_def ustr_def is_word_char_def slice_def)

lemma normalize_example_Hello: "normalize example_lib True True (ustr ''Hello'') = ustr ''hello''"
  by (simp add: normalize_def ustr_def str_lower_def ascii_lower_def ex_isspace)

lemma normalize_example_empty: "normalize example_lib True True [] = []"
  by (simp add: normalize_def str_lower_def)

lemma findall_example_hello: "findall (ustr ''hello'') = [ustr ''hello'']"
  by (simp add: findall_def ustr_def is_word_char_def slice_def)

lemma findall_empty: "findall [] = []"
  by (simp add: findall_def)

lemma compute_example_Hello_empty:
  "compute_detailed_score example_lib (ustr ''Hello'') [] True True (ustr ''word'')
       (ustr ''unnamed'') (ustr ''custom'')
     = Inr \<lparr>model_name = ustr ''unnamed'', source_label = ustr ''custom'', method = ustr ''word'',
            score = 0, char_score = 0, word_score = 0, token_set_score = 0\<rparr>"
proof -
  have v: "ustr ''word'' \<in> valid_methods" by (simp add: valid_methods_def)
  have c: "pair_char_score example_lib True True (ustr ''Hello'') [] = 0"
    unfolding pair_char_score_def char_metric_def normalize_example_Hello normalize_example_empty
    by (simp add: ex_ratio elements_def ustr_def)
  have w: "pair_word_score example_lib True True (ustr ''Hello'') [] = 0"
    by (simp add: pair_word_score_def word_metric_def normalize_example_Hello
        normalize_example_empty findall_example_hello findall_empty)
  have t: "pair_token_set_score example_lib True True (ustr ''Hello'') [] = 0"
    by (simp add: pair_token_set_score_def token_set_metric_def normalize_example_Hello
        normalize_example_empty findall_example_hello findall_empty)
  show ?thesis
    unfolding compute_detailed_score_valid [OF str_lower_valid(2) v] c w t
    by (simp add: method_names_distinct)
qed

subsection \<open>The metrics on identical word lists\<close>

lemma word_metric_same:
  "SequenceMatcher_ratio L ws ws = 1 \<Longrightarrow> word_metric L ws ws = 1"
  by (simp add: word_metric_def)

lemma token_set_metric_same: "token_set_metric ws ws = 1"
proof (cases "ws = []")
  case True
  then show ?thesis by (simp add: token_set_metric_def)
next
  case False
  then have "set ws \<noteq> {}" by simp
  moreover have "card (set ws) \<noteq> 0" using False by simp
  ultimately show ?thesis using False by (simp add: token_set_metric_def Let_def)
qed

subsection \<open>Casings of the method names\<close>

lemma casing_of_lower:
  assumes "casing_of m n" "list_all (\<lambda>c. c < 0x80 \<and> \<not> (0x41 \<le> c \<and> c \<le> 0x5A)) n"
  shows "list_all (\<lambda>c. c < 0x80) m \<and> map ascii_lower m = n"
  using assms unfolding casing_of_def
proof (induction m n rule: list_all2_induct)
  case Nil
  then show ?case by simp
next
  case (Cons a m b n)
  then show ?case by (auto simp: ascii_lower_def)
qed

lemma casing_of_str_lower:
  assumes "casing_of m n" "n \<in> valid_methods"
  shows "str_lower L m = n"
proof -
  have "list_all (\<lambda>c. c < 0x80 \<and> \<not> (0x41 \<le> c \<and> c \<le> 0x5A)) n"
    using assms(2) unfolding valid_methods_def by (auto simp: ustr_def)
  with assms(1) have "list_all (\<lambda>c. c < 0x80) m \<and> map ascii_lower m = n"
    by (rule casing_of_lower)
  then show ?thesis by (simp add: str_lower_def)
qed

lemma ws_score_decoded_text_lower:
  assumes "str_lower L m = n" "n \<in> valid_methods"
  shows "ws_score_decoded_text L fs orig dec ic cw m nm sl rf
           = ws_score_decoded_text L fs orig dec ic cw n nm sl rf"
proof -
  have n: "str_lower L n = n" using assms(2) by (rule str_lower_valid_methods)
  show ?thesis
    using assms(2) unfolding ws_score_decoded_text_def Let_def assms(1) n valid_methods_def
    by (auto simp: method_names_distinct)
qed

subsection \<open>Words\<close>

text \<open>
  C5. A word of at most three characters is returned unchanged (and the generator is
  not used), whatever the generator state.
\<close>

theorem scramble_word_short:
  "length w \<le> 3 \<Longrightarrow> scramble_word w g = Inr (w, g)"
  by (simp add: scramble_word_def)

theorem scramble_word_short_witness:
  "length (ustr ''the'') \<le> 3 \<and> scramble_word (ustr ''the'') (\<lambda>k. k) = Inr (ustr ''the'', \<lambda>k. k)"
  using scramble_word_short [of "ustr ''the''" "\<lambda>k. k"] by (simp add: ustr_def)

text \<open>
  C1. For every word \<open>w\<close> of more than three characters and every generator state,
  \<open>scramble_word\<close> returns (without error) a word of the same length with the same
  first and last character, the same middle character when the length is odd, and the
  same multiset of interior characters \<open>w[1:-1]\<close>.
\<close>

theorem scramble_word_preserves:
  assumes "3 < length w"
  shows "\<exists>out g'. scramble_word w g = Inr (out, g') \<and> length out = length w \<and>
           out ! 0 = w ! 0 \<and> last out = last w \<and>
           (odd (length w) \<longrightarrow> out ! (length w div 2) = w ! (length w div 2)) \<and>
           mset (butlast (tl out)) = mset (butlast (tl w))"
proof -
  obtain out g' where out: "scramble_word w g = Inr (out, g')" "length out = length w"
    "mset out = mset w"
    "\<forall>k. k = 0 \<or> length w \<le> k + 1 \<or> (odd (length w) \<and> k = length w div 2) \<longrightarrow> out ! k = w ! k"
    using scramble_word_sound [of w g] by blast
  have ne: "w \<noteq> []" "out \<noteq> []" using assms out(2) by auto
  have first: "out ! 0 = w ! 0" using out(4) by blast
  have "out ! (length w - 1) = w ! (length w - 1)" using out(4) by simp
  then have lst: "last out = last w" using ne out(2) by (simp add: last_conv_nth)
  have mid: "odd (length w) \<longrightarrow> out ! (length w div 2) = w ! (length w div 2)"
    using out(4) by blast
  have inner: "mset (butlast (tl out)) = mset (butlast (tl w))"
  proof (rule interior_mset)
    show "2 \<le> length out" using assms out(2) by linarith
    show "length w = length out" using out(2) by (rule sym)
    show "out ! 0 = w ! 0" by (rule first)
    show "last out = last w" by (rule lst)
    show "mset out = mset w" by (rule out(3))
  qed
  show ?thesis
  proof (intro exI conjI)
    show "scramble_word w g = Inr (out, g')" by (rule out(1))
    show "length out = length w" by (rule out(2))
    show "out ! 0 = w ! 0" by (rule first)
    show "last out = last w" by (rule lst)
    show "odd (length w) \<longrightarrow> out ! (length w div 2) = w ! (length w div 2)" by (rule mid)
    show "mset (butlast (tl out)) = mset (butlast (tl w))" by (rule inner)
  qed
qed


theorem scramble_word_preserves_witness:
  "3 < length (ustr ''salat'') \<and>
   (\<exists>out g'. scramble_word (ustr ''salat'') (\<lambda>k. 0) = Inr (out, g') \<and>
       length out = length (ustr ''salat'') \<and>
       out ! 0 = ustr ''salat'' ! 0 \<and> last out = last (ustr ''salat'') \<and>
       (odd (length (ustr ''salat'')) \<longrightarrow>
          out ! (length (ustr ''salat'') div 2) = ustr ''salat'' ! (length (ustr ''salat'') div 2)) \<and>
       mset (butlast (tl out)) = mset (butlast (tl (ustr ''salat''))))"
proof -
  have h: "3 < length (ustr ''salat'')" by (simp add: ustr_def)
  show ?thesis using h scramble_word_preserves [OF h, of "\<lambda>k. 0"] by (rule conjI)
qed

text \<open>
  C4. The interior shuffle is total and bounded. For indices that are positions of
  \<open>chars\<close> (as the mutable index set of a word is), \<open>_attempt_shuffle\<close> with the default
  budget returns without error, and the generator it leaves behind is the one after
  \<open>k \<le> 8\<close> shuffles: at most eight attempts are made. With at most one index, or
  with the characters at the indices all equal, no attempt is made (\<open>k = 0\<close>) and the
  characters come back unchanged. If all eight candidates reproduce the original, the
  original comes back unchanged; and in any case the result is the original or one of
  the candidates tried. (The loop is the source's \<open>for _ in range(max_attempts)\<close>, a
  recursion on the number of attempts left, so the function is total by construction.)
\<close>

theorem attempt_shuffle_bounded:
  assumes indices_valid: "list_all (valid_index (length chars)) indices"
  shows "\<exists>out k. attempt_shuffle chars indices g MAX_SHUFFLE_ATTEMPTS
                    = Inr (out, rng_after k (chars_at chars indices) g) \<and>
           k \<le> 8 \<and>
           (length indices \<le> 1 \<or> card (set (chars_at chars indices)) \<le> 1 \<longrightarrow> k = 0 \<and> out = chars) \<and>
           ((\<forall>j<8. candidate_at chars indices (chars_at chars indices) g j = Inr chars) \<longrightarrow> out = chars) \<and>
           (out = chars \<or> (\<exists>j<k. candidate_at chars indices (chars_at chars indices) g j = Inr out))"
proof -
  have valid: "\<forall>i\<in>set indices. valid_index (length chars) i"
    using indices_valid by (simp add: list_all_iff)
  let ?subs = "chars_at chars indices"
  have sub: "subset_at chars indices = Inr ?subs"
    unfolding chars_at_def using valid by (rule subset_at_valid)
  show ?thesis
  proof (cases "length indices \<le> 1 \<or> card (set ?subs) \<le> 1")
    case True
    then have "attempt_shuffle chars indices g MAX_SHUFFLE_ATTEMPTS = Inr (chars, rng_after 0 ?subs g)"
      by (auto simp: attempt_shuffle_def sub)
    then show ?thesis
      by (intro exI [of _ chars] exI [of _ 0]) simp
  next
    case False
    have ok: "\<exists>c. assign_at chars (zip indices (fst (shuffle ?subs g))) = Inr c" for g
      using assign_at_valid [OF valid, of "fst (shuffle ?subs g)"] by blast
    have eq: "attempt_shuffle chars indices g MAX_SHUFFLE_ATTEMPTS = attempt_loop 8 chars indices ?subs g"
      using False by (simp add: attempt_shuffle_def sub MAX_SHUFFLE_ATTEMPTS_def)
    obtain out k where tr: "attempt_loop 8 chars indices ?subs g = Inr (out, rng_after k ?subs g)"
      "k \<le> 8"
      "(out = chars \<and> k = 8 \<and> (\<forall>j<8. candidate_at chars indices ?subs g j = Inr chars)) \<or>
       (out \<noteq> chars \<and> 0 < k \<and> candidate_at chars indices ?subs g (k - 1) = Inr out)"
      using attempt_loop_trace [of chars indices ?subs 8 g, OF ok] by blast
    have c3: "(\<forall>j<8. candidate_at chars indices ?subs g j = Inr chars) \<longrightarrow> out = chars"
    proof
      assume all: "\<forall>j<8. candidate_at chars indices ?subs g j = Inr chars"
      show "out = chars"
      proof (rule ccontr)
        assume ne: "out \<noteq> chars"
        with tr(3) have k: "0 < k" "candidate_at chars indices ?subs g (k - 1) = Inr out" by auto
        have "k - 1 < 8" using tr(2) k(1) by linarith
        with all have "candidate_at chars indices ?subs g (k - 1) = Inr chars" by blast
        with k(2) ne show False by simp
      qed
    qed
    have c4: "out = chars \<or> (\<exists>j<k. candidate_at chars indices ?subs g j = Inr out)"
    proof (cases "out = chars")
      case True
      then show ?thesis by simp
    next
      case ne: False
      with tr(3) have k: "0 < k" "candidate_at chars indices ?subs g (k - 1) = Inr out" by auto
      then have "k - 1 < k" by linarith
      with k(2) show ?thesis by blast
    qed
    show ?thesis unfolding eq
    proof (intro exI conjI)
      show "attempt_loop 8 chars indices ?subs g = Inr (out, rng_after k ?subs g)" by (rule tr(1))
      show "k \<le> 8" by (rule tr(2))
      show "length indices \<le> 1 \<or> card (set ?subs) \<le> 1 \<longrightarrow> k = 0 \<and> out = chars"
        using False by blast
      show "(\<forall>j<8. candidate_at chars indices ?subs g j = Inr chars) \<longrightarrow> out = chars" by (rule c3)
      show "out = chars \<or> (\<exists>j<k. candidate_at chars indices ?subs g j = Inr out)" by (rule c4)
    qed
  qed
qed

theorem attempt_shuffle_bounded_witness:
  "list_all (valid_index (length (ustr ''aabb''))) [1, 2] \<and>
   (\<exists>out k. attempt_shuffle (ustr ''aabb'') [1, 2] (\<lambda>n. 1) MAX_SHUFFLE_ATTEMPTS
                    = Inr (out, rng_after k (chars_at (ustr ''aabb'') [1, 2]) (\<lambda>n. 1)) \<and>
           k \<le> 8 \<and>
           (length [1, 2 :: int] \<le> 1 \<or> card (set (chars_at (ustr ''aabb'') [1, 2])) \<le> 1
              \<longrightarrow> k = 0 \<and> out = ustr ''aabb'') \<and>
           ((\<forall>j<8. candidate_at (ustr ''aabb'') [1, 2] (chars_at (ustr ''aabb'') [1, 2]) (\<lambda>n. 1) j
                     = Inr (ustr ''aabb'')) \<longrightarrow> out = ustr ''aabb'') \<and>
           (out = ustr ''aabb'' \<or>
            (\<exists>j<k. candidate_at (ustr ''aabb'') [1, 2] (chars_at (ustr ''aabb'') [1, 2]) (\<lambda>n. 1) j
                     = Inr out)))"
proof -
  have h: "list_all (valid_index (length (ustr ''aabb''))) [1, 2]"
    by (simp add: valid_index_def ustr_def)
  show ?thesis using h attempt_shuffle_bounded [OF h, of "\<lambda>n. 1"] by (rule conjI)
qed

text \<open>
  The fall-through after eight attempts does occur: with a generator whose draws always
  leave the two interior characters of \<open>aabb\<close> in place the word comes back unchanged,
  and with one that swaps them the first attempt is accepted.
\<close>

lemma attempt_shuffle_aabb_unchanged:
  "attempt_shuffle (ustr ''aabb'') [1, 2] (\<lambda>n. 1) MAX_SHUFFLE_ATTEMPTS = Inr (ustr ''aabb'', \<lambda>n. 1)"
  by (simp add: attempt_shuffle_def ustr_def py_index_def MAX_SHUFFLE_ATTEMPTS_def shuffle_def randbelow_def
      eval_nat_numeral)

lemma attempt_shuffle_abcd_swapped:
  "attempt_shuffle (ustr ''abcd'') [1, 2] (\<lambda>n. 0) MAX_SHUFFLE_ATTEMPTS = Inr (ustr ''acbd'', \<lambda>n. 0)"
  by (simp add: attempt_shuffle_def ustr_def py_index_def MAX_SHUFFLE_ATTEMPTS_def shuffle_def randbelow_def
      eval_nat_numeral)

text \<open>
  C2. For every text \<open>t\<close> (and every seed, seeding function and entropy),
  \<open>scramble_text\<close> returns a text of the same length in which every non-word character
  of \<open>t\<close> stands at its position, and every position of a word character of \<open>t\<close> holds
  a word character: the non-word characters keep their positions, count and order,
  and only the content of the runs of word characters changes.
\<close>

theorem scramble_text_keeps_shape:
  "\<exists>out. scramble_text mt entropy t seed = Inr out \<and> length out = length t \<and>
     (\<forall>i<length t. \<not> is_word_char (t ! i) \<longrightarrow> out ! i = t ! i) \<and>
     (\<forall>i<length t. is_word_char (t ! i) \<longrightarrow> is_word_char (out ! i))"
proof -
  obtain out where out: "scramble_text mt entropy t seed = Inr out" "same_shape t out"
    using scramble_text_total by blast
  show ?thesis
  proof (intro exI conjI allI impI)
    show "scramble_text mt entropy t seed = Inr out" by (rule out(1))
    show "length out = length t" using out(2) by (rule same_shape_nth(1))
    show "out ! i = t ! i" if "i < length t" "\<not> is_word_char (t ! i)" for i
      using out(2) that by (rule same_shape_nth(2))
    show "is_word_char (out ! i)" if "i < length t" "is_word_char (t ! i)" for i
      using out(2) that by (rule same_shape_nth(3))
  qed
qed

theorem scramble_text_keeps_shape_witness:
  "\<exists>out. scramble_text (\<lambda>s k. 0) 0 (ustr ''Hello, World!'') (Some 42) = Inr out \<and>
     length out = length (ustr ''Hello, World!'') \<and>
     5 < length (ustr ''Hello, World!'') \<and> \<not> is_word_char (ustr ''Hello, World!'' ! 5) \<and>
     out ! 5 = ustr ''Hello, World!'' ! 5 \<and>
     is_word_char (ustr ''Hello, World!'' ! 1) \<and> is_word_char (out ! 1)"
proof -
  let ?t = "ustr ''Hello, World!''"
  obtain out where out: "scramble_text (\<lambda>s k. 0) 0 ?t (Some 42) = Inr out"
    "length out = length ?t"
    "\<forall>i<length ?t. \<not> is_word_char (?t ! i) \<longrightarrow> out ! i = ?t ! i"
    "\<forall>i<length ?t. is_word_char (?t ! i) \<longrightarrow> is_word_char (out ! i)"
    using scramble_text_keeps_shape [of "\<lambda>s k. 0" 0 ?t "Some 42"] by blast
  have len: "5 < length ?t" "1 < length ?t" by (simp_all add: ustr_def)
  have comma: "\<not> is_word_char (?t ! 5)" by (simp add: ustr_def is_word_char_def)
  have e: "is_word_char (?t ! 1)" by (simp add: ustr_def is_word_char_def)
  have "out ! 5 = ?t ! 5" using out(3) len(1) comma by blast
  moreover have "is_word_char (out ! 1)" using out(4) len(2) e by blast
  ultimately show ?thesis using out(1,2) len(1) comma e by blast
qed

text \<open>
  C3. Determinism as a two-run property. A call of \<open>scramble_text\<close> reads, besides its
  arguments, only the entropy of the operating system (to seed the generator when no
  seed is given). With a seed \<open>S\<close>, two calls on the same text return the same string,
  whatever the entropy at each call.
\<close>

theorem scramble_text_deterministic:
  "\<exists>out. scramble_text mt entropy1 t (Some S) = Inr out \<and>
         scramble_text mt entropy2 t (Some S) = Inr out"
proof -
  obtain out where out: "scramble_text mt entropy1 t (Some S) = Inr out"
    using scramble_text_total by blast
  moreover have "scramble_text mt entropy2 t (Some S) = scramble_text mt entropy1 t (Some S)"
    by (simp add: scramble_text_def Random_def)
  ultimately show ?thesis by simp
qed

text \<open>
  The seed matters: without one, the result follows the entropy. (Here the seeding
  function makes the generator draw its seed for ever.)
\<close>

lemma scramble_text_unseeded_follows_entropy:
  "scramble_text (\<lambda>s k. nat s) 0 (ustr ''abcd'') None = Inr (ustr ''acbd'')"
  "scramble_text (\<lambda>s k. nat s) 1 (ustr ''abcd'') None = Inr (ustr ''abcd'')"
  by code_simp+

subsection \<open>Selection of the final score\<close>

text \<open>
  C6. For every pair of texts and each of the methods \<open>char\<close>, \<open>word\<close>, \<open>token_set\<close>,
  \<open>hybrid\<close>, \<open>compute_detailed_score\<close> returns a result whose three component scores
  are the three metrics of the pair and whose final score is the char metric for
  \<open>char\<close>, the word metric for \<open>word\<close>, the token-set metric for \<open>token_set\<close>, and
  \<open>(char_score + word_score + token_set_score) / 3\<close> for \<open>hybrid\<close>; both
  \<open>score_decoded_text\<close> functions (scoring.py and word\_salat.py) return that final
  score.
\<close>

theorem final_score_by_method:
  assumes "m \<in> valid_methods"
  shows "\<exists>r. compute_detailed_score L orig dec ic cw m name sl = Inr r \<and>
           char_score r = pair_char_score L ic cw orig dec \<and>
           word_score r = pair_word_score L ic cw orig dec \<and>
           token_set_score r = pair_token_set_score L ic cw orig dec \<and>
           (m = ustr ''char'' \<longrightarrow> score r = char_score r) \<and>
           (m = ustr ''word'' \<longrightarrow> score r = word_score r) \<and>
           (m = ustr ''token_set'' \<longrightarrow> score r = token_set_score r) \<and>
           (m = ustr ''hybrid'' \<longrightarrow>
              score r = (char_score r + word_score r + token_set_score r) / 3) \<and>
           fst (score_decoded_text L fs orig dec ic cw m nm sl rf) = Inr (score r) \<and>
           fst (ws_score_decoded_text L fs orig dec ic cw m nm sl rf) = Inr (score r)"
proof -
  have low: "str_lower L m = m" using assms by (rule str_lower_valid_methods)
  let ?final = "if m = ustr ''char'' then pair_char_score L ic cw orig dec
                   else if m = ustr ''word'' then pair_word_score L ic cw orig dec
                   else if m = ustr ''token_set'' then pair_token_set_score L ic cw orig dec
                   else (pair_char_score L ic cw orig dec + pair_word_score L ic cw orig dec
                         + pair_token_set_score L ic cw orig dec) / 3"
  let ?r = "\<lambda>name. \<lparr>model_name = name, source_label = sl, method = m, score = ?final,
          char_score = pair_char_score L ic cw orig dec,
          word_score = pair_word_score L ic cw orig dec,
          token_set_score = pair_token_set_score L ic cw orig dec\<rparr>"
  have c: "compute_detailed_score L orig dec ic cw m name sl = Inr (?r name)" for name
    using low assms by (rule compute_detailed_score_valid)
  have s1: "fst (score_decoded_text L fs orig dec ic cw m nm sl rf) = Inr ?final"
    unfolding score_decoded_text_fst c by simp
  have s2: "fst (ws_score_decoded_text L fs orig dec ic cw m nm sl rf) = Inr ?final"
    using low assms by (rule ws_score_decoded_text_valid)
  have hyb: "m = ustr ''hybrid'' \<Longrightarrow> ?final = (pair_char_score L ic cw orig dec + pair_word_score L ic cw orig dec
                         + pair_token_set_score L ic cw orig dec) / 3"
    by (simp add: method_names_distinct)
  show ?thesis
  proof (intro exI conjI)
    show "compute_detailed_score L orig dec ic cw m name sl = Inr (?r name)" by (rule c)
    show "char_score (?r name) = pair_char_score L ic cw orig dec" by simp
    show "word_score (?r name) = pair_word_score L ic cw orig dec" by simp
    show "token_set_score (?r name) = pair_token_set_score L ic cw orig dec" by simp
    show "m = ustr ''char'' \<longrightarrow> score (?r name) = char_score (?r name)" by simp
    show "m = ustr ''word'' \<longrightarrow> score (?r name) = word_score (?r name)"
      by (simp add: method_names_distinct)
    show "m = ustr ''token_set'' \<longrightarrow> score (?r name) = token_set_score (?r name)"
      by (simp add: method_names_distinct)
    show "m = ustr ''hybrid'' \<longrightarrow>
            score (?r name) = (char_score (?r name) + word_score (?r name) + token_set_score (?r name)) / 3"
      using hyb by simp
    show "fst (score_decoded_text L fs orig dec ic cw m nm sl rf) = Inr (score (?r name))"
      using s1 by simp
    show "fst (ws_score_decoded_text L fs orig dec ic cw m nm sl rf) = Inr (score (?r name))"
      using s2 by simp
  qed
qed

theorem final_score_by_method_witness:
  "ustr ''hybrid'' \<in> valid_methods \<and>
   (\<exists>r. compute_detailed_score example_lib (ustr ''Hello World'') (ustr ''Hello Earth'') True True
           (ustr ''hybrid'') (ustr ''unnamed'') (ustr ''custom'') = Inr r \<and>
        char_score r = pair_char_score example_lib True True (ustr ''Hello World'') (ustr ''Hello Earth'') \<and>
        word_score r = pair_word_score example_lib True True (ustr ''Hello World'') (ustr ''Hello Earth'') \<and>
        token_set_score r
          = pair_token_set_score example_lib True True (ustr ''Hello World'') (ustr ''Hello Earth'') \<and>
        (ustr ''hybrid'' = ustr ''char'' \<longrightarrow> score r = char_score r) \<and>
        (ustr ''hybrid'' = ustr ''word'' \<longrightarrow> score r = word_score r) \<and>
        (ustr ''hybrid'' = ustr ''token_set'' \<longrightarrow> score r = token_set_score r) \<and>
        (ustr ''hybrid'' = ustr ''hybrid'' \<longrightarrow>
           score r = (char_score r + word_score r + token_set_score r) / 3) \<and>
        fst (score_decoded_text example_lib Map.empty (ustr ''Hello World'') (ustr ''Hello Earth'')
               True True (ustr ''hybrid'') None (ustr ''custom'') (ustr ''scores.md'')) = Inr (score r) \<and>
        fst (ws_score_decoded_text example_lib Map.empty (ustr ''Hello World'') (ustr ''Hello Earth'')
               True True (ustr ''hybrid'') None (ustr ''custom'') (ustr ''scores.md'')) = Inr (score r))"
proof -
  have h: "ustr ''hybrid'' \<in> valid_methods" by (simp add: valid_methods_def)
  show ?thesis using h final_score_by_method [OF h] by (rule conjI)
qed

subsection \<open>Unknown methods\<close>

text \<open>
  C7, as stated, fails: the scorer lower-cases the method before it compares, so a
  string that is not one of \<open>char\<close>, \<open>word\<close>, \<open>token_set\<close>, \<open>hybrid\<close> can still be
  accepted. \<open>HYBRID\<close> is none of the four strings, and the scorer returns a score for
  it.
\<close>

theorem unknown_method_literal_counterexample:
  "ustr ''HYBRID'' \<notin> {ustr ''char'', ustr ''word'', ustr ''token_set'', ustr ''hybrid''} \<and>
   fst (score_decoded_text example_lib Map.empty (ustr ''a'') (ustr ''a'') True True (ustr ''HYBRID'')
          None (ustr ''custom'') (ustr ''results/decoded_scores.md'')) = Inr 1"
proof
  show "ustr ''HYBRID'' \<notin> {ustr ''char'', ustr ''word'', ustr ''token_set'', ustr ''hybrid''}"
    by (simp add: ustr_def)
  have low: "str_lower example_lib (ustr ''HYBRID'') = ustr ''hybrid''"
    by (simp add: str_lower_def ustr_def ascii_lower_def)
  have v: "ustr ''hybrid'' \<in> valid_methods" by (simp add: valid_methods_def)
  have c: "pair_char_score example_lib True True (ustr ''a'') (ustr ''a'') = 1"
    by (simp add: pair_char_score_def char_metric_def ex_ratio)
  have w: "pair_word_score example_lib True True (ustr ''a'') (ustr ''a'') = 1"
    by (simp add: pair_word_score_def word_metric_def ex_ratio normalize_example_a findall_example_a)
  have t: "pair_token_set_score example_lib True True (ustr ''a'') (ustr ''a'') = 1"
    by (simp add: pair_token_set_score_def token_set_metric_def normalize_example_a findall_example_a)
  show "fst (score_decoded_text example_lib Map.empty (ustr ''a'') (ustr ''a'') True True (ustr ''HYBRID'')
          None (ustr ''custom'') (ustr ''results/decoded_scores.md'')) = Inr 1"
    unfolding score_decoded_text_fst compute_detailed_score_valid [OF low v] c w t
    by (simp add: method_names_distinct)
qed

text \<open>
  C7, amended. For every pair of texts and every method string whose lower-cased form
  is not one of \<open>char\<close>, \<open>word\<close>, \<open>token_set\<close>, \<open>hybrid\<close>, the scorer raises
  \<open>ValueError\<close>: \<open>compute_detailed_score\<close> returns no result, and both
  \<open>score_decoded_text\<close> functions return no score and leave the file system as it was
  (no log row is written), also when a name is given.
\<close>

theorem unknown_method_rejected:
  assumes "str_lower L m \<notin> valid_methods"
  shows "compute_detailed_score L orig dec ic cw m name sl
           = Inl (ValueError (ustr ''Unsupported scoring method: '' @ m)) \<and>
         score_decoded_text L fs orig dec ic cw m nm sl rf
           = (Inl (ValueError (ustr ''Unsupported scoring method: '' @ m)), fs) \<and>
         ws_score_decoded_text L fs orig dec ic cw m nm sl rf
           = (Inl (ValueError (ustr ''Unsupported scoring method: '' @ m)), fs)"
proof (intro conjI)
  show c: "compute_detailed_score L orig dec ic cw m name sl
           = Inl (ValueError (ustr ''Unsupported scoring method: '' @ m))" for name
    using assms by (rule compute_detailed_score_invalid)
  show "score_decoded_text L fs orig dec ic cw m nm sl rf
           = (Inl (ValueError (ustr ''Unsupported scoring method: '' @ m)), fs)"
    unfolding score_decoded_text_def c by simp
  show "ws_score_decoded_text L fs orig dec ic cw m nm sl rf
           = (Inl (ValueError (ustr ''Unsupported scoring method: '' @ m)), fs)"
    using assms by (rule ws_score_decoded_text_invalid)
qed

theorem unknown_method_rejected_witness:
  "str_lower example_lib (ustr ''unknown'') \<notin> valid_methods \<and>
   compute_detailed_score example_lib (ustr ''a'') (ustr ''a'') True True (ustr ''unknown'')
       (ustr ''Model'') (ustr ''custom'')
     = Inl (ValueError (ustr ''Unsupported scoring method: '' @ ustr ''unknown'')) \<and>
   score_decoded_text example_lib Map.empty (ustr ''a'') (ustr ''a'') True True (ustr ''unknown'')
       (Some (ustr ''Model'')) (ustr ''custom'') (ustr ''scores.md'')
     = (Inl (ValueError (ustr ''Unsupported scoring method: '' @ ustr ''unknown'')), Map.empty) \<and>
   ws_score_decoded_text example_lib Map.empty (ustr ''a'') (ustr ''a'') True True (ustr ''unknown'')
       (Some (ustr ''Model'')) (ustr ''custom'') (ustr ''scores.md'')
     = (Inl (ValueError (ustr ''Unsupported scoring method: '' @ ustr ''unknown'')), Map.empty)"
proof -
  have h: "str_lower example_lib (ustr ''unknown'') \<notin> valid_methods"
    by (simp add: str_lower_def ustr_def ascii_lower_def valid_methods_def)
  show ?thesis using h unknown_method_rejected [OF h] by (rule conjI)
qed

subsection \<open>Identical texts\<close>

text \<open>
  C8. \<open>SequenceMatcher.ratio\<close> is library code; its documentation says that the ratio
  is 1.0 if the sequences are identical. Under this property, for every string \<open>x\<close>
  (the empty and the whitespace-only ones included), every one of the four methods and
  every setting of the normalization flags (the default among them), both
  \<open>score_decoded_text\<close> functions return the score 1.0 for \<open>x\<close> against itself, and no
  error.
\<close>

theorem identical_texts_score_one:
  assumes refl_ratio: "\<forall>s. SequenceMatcher_ratio L s s = 1"
    and m: "m \<in> valid_methods"
  shows "fst (score_decoded_text L fs x x ic cw m nm sl rf) = Inr 1 \<and>
         fst (ws_score_decoded_text L fs x x ic cw m nm sl rf) = Inr 1"
proof -
  have low: "str_lower L m = m" using m by (rule str_lower_valid_methods)
  have c: "pair_char_score L ic cw x x = 1"
    using refl_ratio by (simp add: pair_char_score_def char_metric_def)
  have w: "pair_word_score L ic cw x x = 1"
    unfolding pair_word_score_def using refl_ratio by (intro word_metric_same) simp
  have t: "pair_token_set_score L ic cw x x = 1"
    unfolding pair_token_set_score_def by (rule token_set_metric_same)
  have a: "fst (score_decoded_text L fs x x ic cw m nm sl rf) = Inr 1"
    unfolding score_decoded_text_fst compute_detailed_score_valid [OF low m] c w t by simp
  have b: "fst (ws_score_decoded_text L fs x x ic cw m nm sl rf) = Inr 1"
    unfolding ws_score_decoded_text_valid [OF low m] c w t by simp
  from a b show ?thesis ..
qed

theorem identical_texts_score_one_witness:
  "(\<forall>s. SequenceMatcher_ratio example_lib s s = 1) \<and> ustr ''hybrid'' \<in> valid_methods \<and>
   fst (score_decoded_text example_lib Map.empty (ustr ''  '') (ustr ''  '') True True (ustr ''hybrid'')
          None (ustr ''custom'') (ustr ''scores.md'')) = Inr 1 \<and>
   fst (ws_score_decoded_text example_lib Map.empty (ustr ''  '') (ustr ''  '') True True (ustr ''hybrid'')
          None (ustr ''custom'') (ustr ''scores.md'')) = Inr 1"
proof -
  have h1: "\<forall>s. SequenceMatcher_ratio example_lib s s = 1" by (simp add: ex_ratio)
  have h2: "ustr ''hybrid'' \<in> valid_methods" by (simp add: valid_methods_def)
  have t: "fst (score_decoded_text example_lib Map.empty (ustr ''  '') (ustr ''  '') True True
                 (ustr ''hybrid'') None (ustr ''custom'') (ustr ''scores.md'')) = Inr 1 \<and>
           fst (ws_score_decoded_text example_lib Map.empty (ustr ''  '') (ustr ''  '') True True
                 (ustr ''hybrid'') None (ustr ''custom'') (ustr ''scores.md'')) = Inr 1"
    by (rule identical_texts_score_one [OF h1 h2])
  show ?thesis using h1 h2 t by (intro conjI) blast+
qed

subsection \<open>The word-level score\<close>

text \<open>
  C9. In every result of \<open>compute_detailed_score\<close> the word score is 1.0 if both
  normalized texts have empty word lists, 0.0 if exactly one of the two word lists is
  empty, and otherwise the ratio of \<open>SequenceMatcher\<close> over the two word lists; the
  score that \<open>score_decoded_text\<close> of word\_salat.py returns for the method \<open>word\<close> is
  the same number.
\<close>

theorem word_score_edge_cases:
  assumes "compute_detailed_score L orig dec ic cw m name sl = Inr r"
  shows "let words_original = findall (normalize L cw ic orig);
             words_decoded = findall (normalize L cw ic dec)
         in (words_original = [] \<and> words_decoded = [] \<longrightarrow> word_score r = 1) \<and>
            ((words_original = []) \<noteq> (words_decoded = []) \<longrightarrow> word_score r = 0) \<and>
            (words_original \<noteq> [] \<and> words_decoded \<noteq> [] \<longrightarrow>
               word_score r = SequenceMatcher_ratio L words_original words_decoded) \<and>
            fst (ws_score_decoded_text L fs orig dec ic cw (ustr ''word'') nm sl rf)
              = Inr (word_score r)"
proof -
  have v: "str_lower L m \<in> valid_methods"
  proof (rule ccontr)
    assume "str_lower L m \<notin> valid_methods"
    then have "compute_detailed_score L orig dec ic cw m name sl
                 = Inl (ValueError (ustr ''Unsupported scoring method: '' @ m))"
      by (rule compute_detailed_score_invalid)
    with assms show False by simp
  qed
  have "word_score r = pair_word_score L ic cw orig dec"
    using assms unfolding compute_detailed_score_valid [OF refl v] by auto
  then have ws: "word_score r = word_metric L (findall (normalize L cw ic orig)) (findall (normalize L cw ic dec))"
    by (simp add: pair_word_score_def)
  have w: "ustr ''word'' \<in> valid_methods" by (simp add: valid_methods_def)
  have "fst (ws_score_decoded_text L fs orig dec ic cw (ustr ''word'') nm sl rf)
          = Inr (pair_word_score L ic cw orig dec)"
    unfolding ws_score_decoded_text_valid [OF str_lower_valid(2) w]
    by (simp add: method_names_distinct)
  then have legacy: "fst (ws_score_decoded_text L fs orig dec ic cw (ustr ''word'') nm sl rf)
          = Inr (word_score r)"
    using ws by (simp add: pair_word_score_def)
  show ?thesis unfolding Let_def
  proof (intro conjI impI)
    show "word_score r = 1"
      if "findall (normalize L cw ic orig) = [] \<and> findall (normalize L cw ic dec) = []"
      using that ws by (simp add: word_metric_def)
    show "word_score r = 0"
      if "(findall (normalize L cw ic orig) = []) \<noteq> (findall (normalize L cw ic dec) = [])"
      using that ws by (auto simp: word_metric_def)
    show "word_score r = SequenceMatcher_ratio L (findall (normalize L cw ic orig))
                           (findall (normalize L cw ic dec))"
      if "findall (normalize L cw ic orig) \<noteq> [] \<and> findall (normalize L cw ic dec) \<noteq> []"
      using that ws by (simp add: word_metric_def)
    show "fst (ws_score_decoded_text L fs orig dec ic cw (ustr ''word'') nm sl rf) = Inr (word_score r)"
      by (rule legacy)
  qed
qed


theorem word_score_edge_cases_witness:
  "compute_detailed_score example_lib (ustr ''Hello'') [] True True (ustr ''word'')
       (ustr ''unnamed'') (ustr ''custom'')
     = Inr \<lparr>model_name = ustr ''unnamed'', source_label = ustr ''custom'', method = ustr ''word'',
            score = 0, char_score = 0, word_score = 0, token_set_score = 0\<rparr> \<and>
   findall (normalize example_lib True True (ustr ''Hello'')) \<noteq> [] \<and>
   findall (normalize example_lib True True []) = [] \<and>
   fst (ws_score_decoded_text example_lib Map.empty (ustr ''Hello'') [] True True (ustr ''word'')
          None (ustr ''custom'') (ustr ''scores.md'')) = Inr 0"
proof -
  let ?r = "\<lparr>model_name = ustr ''unnamed'', source_label = ustr ''custom'', method = ustr ''word'',
            score = 0, char_score = 0, word_score = 0, token_set_score = 0 :: real\<rparr>"
  have h: "compute_detailed_score example_lib (ustr ''Hello'') [] True True (ustr ''word'')
       (ustr ''unnamed'') (ustr ''custom'') = Inr ?r"
    by (rule compute_example_Hello_empty)
  have wo: "findall (normalize example_lib True True (ustr ''Hello'')) \<noteq> []"
    by (simp add: normalize_example_Hello findall_example_hello)
  have wd: "findall (normalize example_lib True True []) = []"
    by (simp add: normalize_example_empty findall_empty)
  have t: "((findall (normalize example_lib True True (ustr ''Hello'')) = [])
             \<noteq> (findall (normalize example_lib True True []) = []) \<longrightarrow> word_score ?r = 0) \<and>
           fst (ws_score_decoded_text example_lib Map.empty (ustr ''Hello'') [] True True
                  (ustr ''word'') None (ustr ''custom'') (ustr ''scores.md'')) = Inr (word_score ?r)"
    using word_score_edge_cases [OF h, of Map.empty None "ustr ''scores.md''"]
    unfolding Let_def by blast
  have legacy: "fst (ws_score_decoded_text example_lib Map.empty (ustr ''Hello'') [] True True
          (ustr ''word'') None (ustr ''custom'') (ustr ''scores.md'')) = Inr 0"
    using t by simp
  show ?thesis by (rule conjI [OF h conjI [OF wo conjI [OF wd legacy]]])
qed

subsection \<open>The method name is matched without regard to case\<close>

text \<open>
  C10. For every casing \<open>m\<close> of one of the four method names \<open>n\<close> (such as \<open>HYBRID\<close> or
  \<open>Char\<close>), the scorer accepts \<open>m\<close> and does exactly what it does for \<open>n\<close>:
  \<open>compute_detailed_score\<close> returns the same result, whose \<open>method\<close> field is the
  lower-case name \<open>n\<close>, and both \<open>score_decoded_text\<close> functions return the same score
  and leave the same file system (the logged row names the lower-case method).
\<close>

theorem method_case_insensitive:
  assumes "casing_of m n" "n \<in> valid_methods"
  shows "compute_detailed_score L orig dec ic cw m name sl
           = compute_detailed_score L orig dec ic cw n name sl \<and>
         (\<exists>r. compute_detailed_score L orig dec ic cw m name sl = Inr r \<and> method r = n) \<and>
         score_decoded_text L fs orig dec ic cw m nm sl rf
           = score_decoded_text L fs orig dec ic cw n nm sl rf \<and>
         ws_score_decoded_text L fs orig dec ic cw m nm sl rf
           = ws_score_decoded_text L fs orig dec ic cw n nm sl rf"
proof -
  have lm: "str_lower L m = n" using assms by (rule casing_of_str_lower)
  have ln: "str_lower L n = n" using assms(2) by (rule str_lower_valid_methods)
  have c: "compute_detailed_score L orig dec ic cw m name sl
             = compute_detailed_score L orig dec ic cw n name sl" for name
    unfolding compute_detailed_score_valid [OF lm assms(2)]
      compute_detailed_score_valid [OF ln assms(2)] ..
  have r: "\<exists>r. compute_detailed_score L orig dec ic cw m name sl = Inr r \<and> method r = n"
    unfolding compute_detailed_score_valid [OF lm assms(2)] by simp
  have s: "score_decoded_text L fs orig dec ic cw m nm sl rf
           = score_decoded_text L fs orig dec ic cw n nm sl rf"
    unfolding score_decoded_text_def c ..
  have w: "ws_score_decoded_text L fs orig dec ic cw m nm sl rf
           = ws_score_decoded_text L fs orig dec ic cw n nm sl rf"
    using lm assms(2) by (rule ws_score_decoded_text_lower)
  from c r s w show ?thesis by (intro conjI)
qed

theorem method_case_insensitive_witness:
  "casing_of (ustr ''HyBRID'') (ustr ''hybrid'') \<and> ustr ''hybrid'' \<in> valid_methods \<and>
   compute_detailed_score example_lib (ustr ''Hello'') (ustr ''Hallo'') True True (ustr ''HyBRID'')
       (ustr ''unnamed'') (ustr ''custom'')
     = compute_detailed_score example_lib (ustr ''Hello'') (ustr ''Hallo'') True True (ustr ''hybrid'')
         (ustr ''unnamed'') (ustr ''custom'') \<and>
   (\<exists>r. compute_detailed_score example_lib (ustr ''Hello'') (ustr ''Hallo'') True True (ustr ''HyBRID'')
           (ustr ''unnamed'') (ustr ''custom'') = Inr r \<and> method r = ustr ''hybrid'') \<and>
   score_decoded_text example_lib Map.empty (ustr ''Hello'') (ustr ''Hallo'') True True (ustr ''HyBRID'')
       (Some (ustr ''Model'')) (ustr ''custom'') (ustr ''scores.md'')
     = score_decoded_text example_lib Map.empty (ustr ''Hello'') (ustr ''Hallo'') True True
         (ustr ''hybrid'') (Some (ustr ''Model'')) (ustr ''custom'') (ustr ''scores.md'') \<and>
   ws_score_decoded_text example_lib Map.empty (ustr ''Hello'') (ustr ''Hallo'') True True
       (ustr ''HyBRID'') (Some (ustr ''Model'')) (ustr ''custom'') (ustr ''scores.md'')
     = ws_score_decoded_text example_lib Map.empty (ustr ''Hello'') (ustr ''Hallo'') True True
         (ustr ''hybrid'') (Some (ustr ''Model'')) (ustr ''custom'') (ustr ''scores.md'')"
proof -
  have h1: "casing_of (ustr ''HyBRID'') (ustr ''hybrid'')"
    by (simp add: casing_of_def ustr_def)
  have h2: "ustr ''hybrid'' \<in> valid_methods" by (simp add: valid_methods_def)
  have t: "compute_detailed_score example_lib (ustr ''Hello'') (ustr ''Hallo'') True True (ustr ''HyBRID'')
       (ustr ''unnamed'') (ustr ''custom'')
     = compute_detailed_score example_lib (ustr ''Hello'') (ustr ''Hallo'') True True (ustr ''hybrid'')
         (ustr ''unnamed'') (ustr ''custom'') \<and>
   (\<exists>r. compute_detailed_score example_lib (ustr ''Hello'') (ustr ''Hallo'') True True (ustr ''HyBRID'')
           (ustr ''unnamed'') (ustr ''custom'') = Inr r \<and> method r = ustr ''hybrid'') \<and>
   score_decoded_text example_lib Map.empty (ustr ''Hello'') (ustr ''Hallo'') True True (ustr ''HyBRID'')
       (Some (ustr ''Model'')) (ustr ''custom'') (ustr ''scores.md'')
     = score_decoded_text example_lib Map.empty (ustr ''Hello'') (ustr ''Hallo'') True True
         (ustr ''hybrid'') (Some (ustr ''Model'')) (ustr ''custom'') (ustr ''scores.md'') \<and>
   ws_score_decoded_text example_lib Map.empty (ustr ''Hello'') (ustr ''Hallo'') True True
       (ustr ''HyBRID'') (Some (ustr ''Model'')) (ustr ''custom'') (ustr ''scores.md'')
     = ws_score_decoded_text example_lib Map.empty (ustr ''Hello'') (ustr ''Hallo'') True True
         (ustr ''hybrid'') (Some (ustr ''Model'')) (ustr ''custom'') (ustr ''scores.md'')"
    by (rule method_case_insensitive [OF h1 h2])
  show ?thesis by (rule conjI [OF h1 conjI [OF h2 t]])
qed

end
